theory Spec2Isabelle
  imports Complex_Main "HOL-Library.Multiset" "HOL-Library.Sublist"
begin

section \<open>Streaming abundance trimming: \<^verbatim>\<open>sandbox/trim-low-abund.py\<close>\<close>

text \<open>
  The script reads sequence records file by file, keeps a k-mer counting table, and
  writes each record either to a deferred store (\<^verbatim>\<open>.pass2\<close>, in a temporary directory)
  or, trimmed, to the final output (\<^verbatim>\<open>.abundtrim\<close>). A second pass goes over the
  deferred stores. This theory embeds \<^verbatim>\<open>trim_record\<close> and \<^verbatim>\<open>main\<close>.

  Python integers are \<open>int\<close>, strings are \<open>string\<close>. What is printed to standard
  output (progress lines and the run summary) is left out; what goes to standard error
  is kept. The counting table, the record reader and the record writer live in the
  \<^verbatim>\<open>khmer\<close> and \<^verbatim>\<open>screed\<close> packages, outside this file: the table and the reader
  are parameters of the model, the writer is modelled from the specification.
\<close>

subsection \<open>Records, errors, results\<close>

type_synonym path = string

text \<open>A screed record: \<open>accuracy\<close> is \<open>None\<close> when the record has no such attribute
  (\<^verbatim>\<open>hasattr(read, 'accuracy')\<close> is false).\<close>

record read =
  name :: string
  sequence :: string
  accuracy :: "string option"

text \<open>What \<^verbatim>\<open>broken_paired_reader\<close> yields, \<^verbatim>\<open>(n, is_pair, read1, read2)\<close>: with
  \<^verbatim>\<open>is_pair\<close> false only \<^verbatim>\<open>read1\<close> is used.\<close>

datatype item = Unpaired read | Paired read read

datatype error =
    TooShort | InvalidBase | InvalidLength | ConfigError
  | IOError | OSError | NameError | ZeroDivisionError

text \<open>A statement either completes in a state or raises in the state reached so far.\<close>

datatype 's res = Done 's | Raised error 's

fun thn :: "'s res \<Rightarrow> ('s \<Rightarrow> 's res) \<Rightarrow> 's res" where
  "thn (Done s) f = f s"
| "thn (Raised e s) f = Raised e s"

fun state_of :: "'s res \<Rightarrow> 's" where
  "state_of (Done s) = s"
| "state_of (Raised e s) = s"

fun is_Done :: "'s res \<Rightarrow> bool" where
  "is_Done (Done s) = True"
| "is_Done (Raised e s) = False"

datatype outcome = Success | SysExit int | Uncaught error

datatype msg = Line string | FpRate rat

subsection \<open>The collaborators\<close>

text \<open>
  The counting table object \<^verbatim>\<open>ht\<close>, as \<^verbatim>\<open>main\<close> uses it. Every call may raise.
  \<^verbatim>\<open>get_median_count\<close> returns \<^verbatim>\<open>(median, average, stddev)\<close> and
  \<^verbatim>\<open>trim_on_abundance\<close> returns \<^verbatim>\<open>(sequence, trim_at)\<close>; \<^verbatim>\<open>main\<close> reads the
  median and \<^verbatim>\<open>trim_at\<close> only, so the operations return just these. \<^verbatim>\<open>consume\<close>
  updates the table; a call that raises leaves it as it was.
\<close>

record 't counting_hash =
  new_counting_hash :: "int \<Rightarrow> rat \<Rightarrow> int \<Rightarrow> error + 't"
  get_median_count :: "'t \<Rightarrow> string \<Rightarrow> error + int"
  consume :: "'t \<Rightarrow> string \<Rightarrow> error + 't"
  trim_on_abundance :: "'t \<Rightarrow> string \<Rightarrow> int \<Rightarrow> error + int"
  calc_expected_collisions :: "'t \<Rightarrow> rat"

text \<open>
  The environment of a run: the table implementation; the items
  \<^verbatim>\<open>broken_paired_reader(screed.open(filename))\<close> yields for an input file (or the
  error raised on opening it); the directory name \<^verbatim>\<open>tempfile.mkdtemp\<close> returns; and
  whether writing a record to a file raises \<^verbatim>\<open>IOError\<close>, given the file's path and
  the records already in it.
\<close>

record 't env =
  table :: "'t counting_hash"
  source :: "path \<Rightarrow> error + item list"
  mkdtemp :: "string \<Rightarrow> path"
  write_fails :: "path \<Rightarrow> read list \<Rightarrow> read \<Rightarrow> bool"

text \<open>The parsed command line (\<^verbatim>\<open>get_parser\<close>).\<close>

record args =
  ksize :: int
  n_hashes :: int
  min_hashsize :: rat
  abund_cutoff :: int
  normalize_to :: int
  variable_coverage :: bool
  tempdir :: string
  input_filenames :: "path list"

text \<open>The defaults of the options, and the arguments of a run that names its input
  files only, with none of the \<^verbatim>\<open>KHMER_\<close> environment variables set.\<close>

definition DEFAULT_NORMALIZE_LIMIT :: int where
  "DEFAULT_NORMALIZE_LIMIT = 20"

definition DEFAULT_CUTOFF :: int where
  "DEFAULT_CUTOFF = 2"

definition DEFAULT_K :: int where
  "DEFAULT_K = 32"

definition DEFAULT_N_HT :: int where
  "DEFAULT_N_HT = 4"

definition DEFAULT_MIN_HASHSIZE :: rat where
  "DEFAULT_MIN_HASHSIZE = 1000000"

definition default_args :: "path list \<Rightarrow> args" where
  "default_args fns =
     \<lparr>ksize = DEFAULT_K, n_hashes = DEFAULT_N_HT, min_hashsize = DEFAULT_MIN_HASHSIZE,
      abund_cutoff = DEFAULT_CUTOFF, normalize_to = DEFAULT_NORMALIZE_LIMIT,
      variable_coverage = False, tempdir = ''./'', input_filenames = fns\<rparr>"

text \<open>The files the run writes, each the list of records written to it; the
  directories; the lines on standard error.\<close>

record world =
  w_files :: "path \<rightharpoonup> read list"
  w_dirs :: "path set"
  w_stderr :: "msg list"

text \<open>The variables of \<^verbatim>\<open>main\<close>. \<open>n_bound\<close> says whether the loop variable \<^verbatim>\<open>n\<close>
  has been bound yet.\<close>

record 't state =
  ht :: 't
  files :: "path \<rightharpoonup> read list"
  dirs :: "path set"
  stderr :: "msg list"
  pass2list :: "(path \<times> path \<times> path) list"
  n_bound :: bool
  save_pass2 :: int
  save_pass2_total :: int
  read_bp :: int
  read_reads :: int
  wrote_bp :: int
  wrote_reads :: int
  trimmed_reads :: int
  skipped_n :: int
  skipped_bp :: int

definition world_of :: "'t state \<Rightarrow> world" where
  "world_of s = \<lparr>w_files = files s, w_dirs = dirs s, w_stderr = stderr s\<rparr>"

subsection \<open>Strings and paths\<close>

text \<open>\<^verbatim>\<open>s[:n]\<close>: a negative \<open>n\<close> counts from the end.\<close>

definition slice_to :: "int \<Rightarrow> 'a list \<Rightarrow> 'a list" where
  "slice_to n xs = (if 0 \<le> n then take (nat n) xs else take (length xs - nat (- n)) xs)"

text \<open>\<^verbatim>\<open>s.replace('N', 'A')\<close>\<close>

definition replace_N_A :: "string \<Rightarrow> string" where
  "replace_N_A s = map (\<lambda>c. if c = CHR ''N'' then CHR ''A'' else c) s"

text \<open>\<^verbatim>\<open>os.path.basename\<close>: what follows the last slash.\<close>

definition basename :: "path \<Rightarrow> path" where
  "basename p = rev (takeWhile (\<lambda>c. c \<noteq> CHR ''/'') (rev p))"

text \<open>\<^verbatim>\<open>os.path.join\<close> of two components.\<close>

definition join :: "path \<Rightarrow> path \<Rightarrow> path" where
  "join a b =
     (if b \<noteq> [] \<and> hd b = CHR ''/'' then b
      else if a = [] \<or> last a = CHR ''/'' then a @ b
      else a @ ''/'' @ b)"

definition pass2filename_of :: "path \<Rightarrow> path \<Rightarrow> path" where
  "pass2filename_of tmp filename = join tmp (basename filename @ ''.pass2'')"

definition trimfilename_of :: "path \<Rightarrow> path" where
  "trimfilename_of filename = basename filename @ ''.abundtrim''"

subsection \<open>\<^verbatim>\<open>trim_record\<close>\<close>

definition trim_record :: "read \<Rightarrow> int \<Rightarrow> read" where
  "trim_record rd trim_at =
     \<lparr>name = name rd,
      sequence = slice_to trim_at (sequence rd),
      accuracy = (case accuracy rd of None \<Rightarrow> None | Some a \<Rightarrow> Some (slice_to trim_at a))\<rparr>"

subsection \<open>Files\<close>

definition contents :: "'t state \<Rightarrow> path \<Rightarrow> read list" where
  "contents s p = (case files s p of None \<Rightarrow> [] | Some rs \<Rightarrow> rs)"

text \<open>\<^verbatim>\<open>open(p, 'w')\<close> creates or empties the file, \<^verbatim>\<open>open(p, 'a')\<close> creates it or
  keeps what it holds.\<close>

definition open_w :: "path \<Rightarrow> 't state \<Rightarrow> 't state" where
  "open_w p s = s\<lparr>files := (files s)(p \<mapsto> [])\<rparr>"

definition open_a :: "path \<Rightarrow> 't state \<Rightarrow> 't state" where
  "open_a p s = s\<lparr>files := (files s)(p \<mapsto> contents s p)\<rparr>"

text \<open>
  Modelled from the spec: \<^verbatim>\<open>khmer.utils.write_record\<close> and \<^verbatim>\<open>write_record_pair\<close>
  are not in the source file. The record sink "accepts single records or record pairs
  and serializes them", and a store is "an ordered sequence of records": a write appends
  the record to the file, a pair is written mate by mate. A write may raise
  \<^verbatim>\<open>IOError\<close>.
\<close>

definition write_record :: "'t env \<Rightarrow> read \<Rightarrow> path \<Rightarrow> 't state \<Rightarrow> 't state res" where
  "write_record E r p s =
     (if write_fails E p (contents s p) r then Raised IOError s
      else Done (s\<lparr>files := (files s)(p \<mapsto> contents s p @ [r])\<rparr>))"

definition write_record_pair ::
  "'t env \<Rightarrow> read \<Rightarrow> read \<Rightarrow> path \<Rightarrow> 't state \<Rightarrow> 't state res" where
  "write_record_pair E r1 r2 p s = thn (write_record E r1 p s) (write_record E r2 p)"

text \<open>\<^verbatim>\<open>os.unlink\<close> and \<^verbatim>\<open>shutil.rmtree\<close>.\<close>

definition unlink :: "path \<Rightarrow> 't state \<Rightarrow> 't state res" where
  "unlink p s =
     (case files s p of None \<Rightarrow> Raised OSError s
      | Some rs \<Rightarrow> Done (s\<lparr>files := (files s)(p := None)\<rparr>))"

definition inside :: "path \<Rightarrow> path \<Rightarrow> bool" where
  "inside d p = prefix (if d \<noteq> [] \<and> last d = CHR ''/'' then d else d @ ''/'') p"

definition rmtree :: "path \<Rightarrow> 't state \<Rightarrow> 't state" where
  "rmtree d s =
     s\<lparr>files := (\<lambda>p. if inside d p then None else files s p), dirs := dirs s - {d}\<rparr>"

subsection \<open>First pass\<close>

text \<open>Lines 170 to 202: a pair.\<close>

definition pass1_pair ::
  "'t env \<Rightarrow> args \<Rightarrow> path \<Rightarrow> path \<Rightarrow> read \<Rightarrow> read \<Rightarrow> 't state \<Rightarrow> 't state res" where
  "pass1_pair E A pass2filename trimfilename read1 read2 s0 =
     (let s = s0\<lparr>read_reads := read_reads s0 + 2,
                 read_bp := read_bp s0 + (int (length (sequence read1))
                                          + int (length (sequence read2)))\<rparr>;
          seq1 = replace_N_A (sequence read1);
          seq2 = replace_N_A (sequence read2)
      in case get_median_count (table E) (ht s) seq1 of
           Inl e \<Rightarrow> Raised e s
         | Inr med1 \<Rightarrow>
       (case get_median_count (table E) (ht s) seq2 of
           Inl e \<Rightarrow> Raised e s
         | Inr med2 \<Rightarrow>
        if med1 < normalize_to A \<or> med2 < normalize_to A then
          (case consume (table E) (ht s) seq1 of
             Inl e \<Rightarrow> Raised e s
           | Inr h1 \<Rightarrow>
          (case consume (table E) h1 seq2 of
             Inl e \<Rightarrow> Raised e (s\<lparr>ht := h1\<rparr>)
           | Inr h2 \<Rightarrow>
             thn (write_record_pair E read1 read2 pass2filename (s\<lparr>ht := h2\<rparr>))
               (\<lambda>s. Done (s\<lparr>save_pass2 := save_pass2 s + 2\<rparr>))))
        else
          (case trim_on_abundance (table E) (ht s) seq1 (abund_cutoff A) of
             Inl e \<Rightarrow> Raised e s
           | Inr trim_at1 \<Rightarrow>
          (case trim_on_abundance (table E) (ht s) seq2 (abund_cutoff A) of
             Inl e \<Rightarrow> Raised e s
           | Inr trim_at2 \<Rightarrow>
             (let read1' = (if trim_at1 \<ge> ksize A then trim_record read1 trim_at1 else read1);
                  read2' = (if trim_at2 \<ge> ksize A then trim_record read2 trim_at2 else read2);
                  s = s\<lparr>trimmed_reads := trimmed_reads s
                         + (if trim_at1 \<noteq> int (length seq1) then 1 else 0)\<rparr>;
                  s = s\<lparr>trimmed_reads := trimmed_reads s
                         + (if trim_at2 \<noteq> int (length seq2) then 1 else 0)\<rparr>
              in thn (write_record_pair E read1' read2' trimfilename s)
                   (\<lambda>s. Done (s\<lparr>wrote_reads := wrote_reads s + 2,
                                  wrote_bp := wrote_bp s + (trim_at1 + trim_at2)\<rparr>)))))))"

text \<open>Lines 203 to 226: a single record.\<close>

definition pass1_single ::
  "'t env \<Rightarrow> args \<Rightarrow> path \<Rightarrow> path \<Rightarrow> read \<Rightarrow> 't state \<Rightarrow> 't state res" where
  "pass1_single E A pass2filename trimfilename read1 s0 =
     (let s = s0\<lparr>read_reads := read_reads s0 + 1,
                 read_bp := read_bp s0 + int (length (sequence read1))\<rparr>;
          seq = replace_N_A (sequence read1)
      in case get_median_count (table E) (ht s) seq of
           Inl e \<Rightarrow> Raised e s
         | Inr med \<Rightarrow>
        if med < normalize_to A then
          (case consume (table E) (ht s) seq of
             Inl e \<Rightarrow> Raised e s
           | Inr h \<Rightarrow>
             thn (write_record E read1 pass2filename (s\<lparr>ht := h\<rparr>))
               (\<lambda>s. Done (s\<lparr>save_pass2 := save_pass2 s + 1\<rparr>)))
        else
          (case trim_on_abundance (table E) (ht s) seq (abund_cutoff A) of
             Inl e \<Rightarrow> Raised e s
           | Inr trim_at \<Rightarrow>
             if trim_at \<ge> ksize A then
               thn (write_record E (trim_record read1 trim_at) trimfilename s)
                 (\<lambda>s. Done (s\<lparr>wrote_reads := wrote_reads s + 1,
                                wrote_bp := wrote_bp s + trim_at,
                                trimmed_reads := trimmed_reads s
                                  + (if trim_at \<noteq> int (length (sequence read1)) then 1 else 0)\<rparr>))
             else Done s))"

fun pass1_item ::
  "'t env \<Rightarrow> args \<Rightarrow> path \<Rightarrow> path \<Rightarrow> item \<Rightarrow> 't state \<Rightarrow> 't state res" where
  "pass1_item E A pass2filename trimfilename (Paired read1 read2) s =
     pass1_pair E A pass2filename trimfilename read1 read2 s"
| "pass1_item E A pass2filename trimfilename (Unpaired read1) s =
     pass1_single E A pass2filename trimfilename read1 s"

text \<open>The loop of line 162; each iteration binds \<^verbatim>\<open>n\<close>.\<close>

fun pass1_loop ::
  "'t env \<Rightarrow> args \<Rightarrow> path \<Rightarrow> path \<Rightarrow> item list \<Rightarrow> 't state \<Rightarrow> 't state res" where
  "pass1_loop E A pass2filename trimfilename [] s = Done s"
| "pass1_loop E A pass2filename trimfilename (it # its) s =
     thn (pass1_item E A pass2filename trimfilename it (s\<lparr>n_bound := True\<rparr>))
       (pass1_loop E A pass2filename trimfilename its)"

text \<open>Lines 151 to 233, the body of the loop over the input files. The summary line
  of line 231 reads \<^verbatim>\<open>n\<close>, which no loop has bound when the first input file yields no
  record.\<close>

definition pass1_file :: "'t env \<Rightarrow> args \<Rightarrow> path \<Rightarrow> path \<Rightarrow> 't state \<Rightarrow> 't state res" where
  "pass1_file E A tmp filename s0 =
     (let pass2filename = pass2filename_of tmp filename;
          trimfilename = trimfilename_of filename;
          s = s0\<lparr>pass2list := pass2list s0 @ [(filename, pass2filename, trimfilename)]\<rparr>
      in case source E filename of
           Inl e \<Rightarrow> Raised e s
         | Inr items \<Rightarrow>
             thn (pass1_loop E A pass2filename trimfilename items
                    ((open_w trimfilename (open_w pass2filename s))\<lparr>save_pass2 := 0\<rparr>))
               (\<lambda>s. if \<not> n_bound s then Raised NameError s
                     else Done (s\<lparr>save_pass2_total := save_pass2_total s + save_pass2 s\<rparr>)))"

fun first_pass :: "'t env \<Rightarrow> args \<Rightarrow> path \<Rightarrow> path list \<Rightarrow> 't state \<Rightarrow> 't state res" where
  "first_pass E A tmp [] s = Done s"
| "first_pass E A tmp (filename # rest) s =
     thn (pass1_file E A tmp filename s) (first_pass E A tmp rest)"

subsection \<open>Second pass\<close>

text \<open>Lines 254 to 277: a record of a deferred store.\<close>

definition pass2_read :: "'t env \<Rightarrow> args \<Rightarrow> path \<Rightarrow> read \<Rightarrow> 't state \<Rightarrow> 't state res" where
  "pass2_read E A trimfilename rd s =
     (let seq = replace_N_A (sequence rd)
      in case get_median_count (table E) (ht s) seq of
           Inl e \<Rightarrow> Raised e s
         | Inr med \<Rightarrow>
        if med < normalize_to A \<and> variable_coverage A then
          thn (write_record E rd trimfilename s)
            (\<lambda>s. Done (s\<lparr>wrote_reads := wrote_reads s + 1,
                           wrote_bp := wrote_bp s + int (length (sequence rd)),
                           skipped_n := skipped_n s + 1,
                           skipped_bp := skipped_bp s + int (length (sequence rd))\<rparr>))
        else
          (case trim_on_abundance (table E) (ht s) seq (abund_cutoff A) of
             Inl e \<Rightarrow> Raised e s
           | Inr trim_at \<Rightarrow>
             if trim_at \<ge> ksize A then
               thn (write_record E (trim_record rd trim_at) trimfilename s)
                 (\<lambda>s. Done (s\<lparr>wrote_reads := wrote_reads s + 1,
                                wrote_bp := wrote_bp s + trim_at,
                                trimmed_reads := trimmed_reads s
                                  + (if trim_at \<noteq> int (length (sequence rd)) then 1 else 0)\<rparr>))
             else Done s))"

fun pass2_loop :: "'t env \<Rightarrow> args \<Rightarrow> path \<Rightarrow> read list \<Rightarrow> 't state \<Rightarrow> 't state res" where
  "pass2_loop E A trimfilename [] s = Done s"
| "pass2_loop E A trimfilename (rd # rds) s =
     thn (pass2_read E A trimfilename rd (s\<lparr>n_bound := True\<rparr>))
       (pass2_loop E A trimfilename rds)"

text \<open>Lines 240 to 280, the body of the loop over \<^verbatim>\<open>pass2list\<close>. \<^verbatim>\<open>screed.open\<close>
  of the deferred store yields the records written to it, in order; it raises when the
  file is not there.\<close>

fun pass2_file ::
  "'t env \<Rightarrow> args \<Rightarrow> path \<times> path \<times> path \<Rightarrow> 't state \<Rightarrow> 't state res" where
  "pass2_file E A (orig_filename, pass2filename, trimfilename) s0 =
     (let s = open_a trimfilename s0
      in case files s pass2filename of
           None \<Rightarrow> Raised IOError s
         | Some rds \<Rightarrow>
             thn (pass2_loop E A trimfilename rds s) (unlink pass2filename))"

fun second_pass ::
  "'t env \<Rightarrow> args \<Rightarrow> (path \<times> path \<times> path) list \<Rightarrow> 't state \<Rightarrow> 't state res" where
  "second_pass E A [] s = Done s"
| "second_pass E A (entry # rest) s =
     thn (pass2_file E A entry s) (second_pass E A rest)"

subsection \<open>\<^verbatim>\<open>main\<close>\<close>

text \<open>\<^verbatim>\<open>MAX_FALSE_POSITIVE_RATE = 0.8\<close> is the double nearest to 0.8, whose exact value
  is \<open>3602879701896397 / 2 ^ 52\<close>. The estimate it is compared with is a double too, here
  its exact value.\<close>

definition MAX_FALSE_POSITIVE_RATE :: rat where
  "MAX_FALSE_POSITIVE_RATE = 3602879701896397 / 4503599627370496"

definition init_state :: "'t \<Rightarrow> path \<Rightarrow> world \<Rightarrow> 't state" where
  "init_state h tmp w =
     \<lparr>ht = h, files = w_files w, dirs = insert tmp (w_dirs w), stderr = w_stderr w,
      pass2list = [], n_bound = False, save_pass2 = 0, save_pass2_total = 0,
      read_bp = 0, read_reads = 0, wrote_bp = 0, wrote_reads = 0, trimmed_reads = 0,
      skipped_n = 0, skipped_bp = 0\<rparr>"

text \<open>Lines 134 to 283: the table is there; both passes and the removal of the
  temporary directory.\<close>

definition run_passes :: "'t env \<Rightarrow> args \<Rightarrow> 't \<Rightarrow> world \<Rightarrow> 't state res" where
  "run_passes E A h w =
     (let tmp = mkdtemp E (tempdir A)
      in thn (first_pass E A tmp (input_filenames A) (init_state h tmp w))
           (\<lambda>s. thn (second_pass E A (pass2list s) s)
                  (\<lambda>s. Done (rmtree tmp s))))"

text \<open>Lines 285 to 310: the summary divides by \<^verbatim>\<open>float(read_bp)\<close>; then the
  false-positive rate is checked.\<close>

definition finish :: "'t env \<Rightarrow> 't state \<Rightarrow> outcome \<times> world" where
  "finish E s0 =
     (if read_bp s0 = 0 then (Uncaught ZeroDivisionError, world_of s0)
      else
        let fp_rate = calc_expected_collisions (table E) (ht s0);
            s = s0\<lparr>stderr := stderr s0 @ [FpRate fp_rate]\<rparr>
        in if fp_rate > MAX_FALSE_POSITIVE_RATE then
             (SysExit 1,
              world_of (s\<lparr>stderr := stderr s @
                 [Line ''**'',
                  Line ''** ERROR: the k-mer counting table is too small for this data set. Increase tablesize/# tables.'',
                  Line ''**'',
                  Line ''** Do not use these results!!'']\<rparr>))
           else (Success, world_of s))"

definition main :: "'t env \<Rightarrow> args \<Rightarrow> world \<Rightarrow> outcome \<times> world" where
  "main E A w =
     (if card (set (input_filenames A)) \<noteq> length (input_filenames A) then
        (SysExit 1,
         w\<lparr>w_stderr := w_stderr w @
            [Line ''Error: Cannot input the same filename multiple times.'']\<rparr>)
      else
        case new_counting_hash (table E) (ksize A) (min_hashsize A) (n_hashes A) of
          Inl e \<Rightarrow> (Uncaught e, w)
        | Inr h \<Rightarrow>
            (case run_passes E A h w of
               Raised e s \<Rightarrow> (Uncaught e, world_of s)
             | Done s \<Rightarrow> finish E s))"

subsection \<open>A counting table without collisions\<close>

text \<open>
  Modelled from the spec: the counting table (\<^verbatim>\<open>khmer.new_counting_hash\<close> and the
  methods of the object it returns) is not in the source file. This is the table of the
  specification in the case it calls "a table with no collisions": one saturating counter
  (maximum 255) per canonical key. A key is the 2-bits-per-base encoding of a k-mer or
  of its reverse complement, whichever is smaller. Construction with a k-mer size
  \<open>\<le> 0\<close> is a \<open>ConfigError\<close>; a base outside A, C, G, T is an \<open>InvalidBase\<close> when
  its k-mer is encoded; the median of a sequence shorter than K is a \<open>TooShort\<close>;
  \<^verbatim>\<open>trim_on_abundance\<close> leaves a sequence shorter than K untouched, and otherwise
  returns the position of the first k-mer below the cutoff plus K - 1, or the length.
\<close>

record exact_table =
  tk :: nat
  counts :: "nat \<Rightarrow> nat"

definition valid_base :: "char \<Rightarrow> bool" where
  "valid_base c = (c = CHR ''A'' \<or> c = CHR ''C'' \<or> c = CHR ''G'' \<or> c = CHR ''T'')"

definition base_code :: "char \<Rightarrow> nat" where
  "base_code c = (if c = CHR ''A'' then 0 else if c = CHR ''C'' then 1
                  else if c = CHR ''G'' then 2 else 3)"

definition complement :: "char \<Rightarrow> char" where
  "complement c = (if c = CHR ''A'' then CHR ''T'' else if c = CHR ''C'' then CHR ''G''
                   else if c = CHR ''G'' then CHR ''C'' else CHR ''A'')"

definition encode_fwd :: "string \<Rightarrow> nat" where
  "encode_fwd k = foldl (\<lambda>a c. 4 * a + base_code c) 0 k"

definition canonical_key :: "string \<Rightarrow> nat" where
  "canonical_key k = min (encode_fwd k) (encode_fwd (rev (map complement k)))"

definition kmers :: "nat \<Rightarrow> string \<Rightarrow> string list" where
  "kmers K s = map (\<lambda>i. take K (drop i s)) [0..<length s + 1 - K]"

definition get_count :: "exact_table \<Rightarrow> string \<Rightarrow> nat" where
  "get_count t k = counts t (canonical_key k)"

definition count_up :: "exact_table \<Rightarrow> string \<Rightarrow> exact_table" where
  "count_up t k =
     t\<lparr>counts := (counts t)(canonical_key k := min 255 (counts t (canonical_key k) + 1))\<rparr>"

definition median :: "nat list \<Rightarrow> nat" where
  "median cs = sort cs ! (length cs div 2)"

fun first_below :: "exact_table \<Rightarrow> int \<Rightarrow> string list \<Rightarrow> nat \<Rightarrow> error + nat option" where
  "first_below t cutoff [] p = Inr None"
| "first_below t cutoff (k # ks) p =
     (if \<not> list_all valid_base k then Inl InvalidBase
      else if int (get_count t k) < cutoff then Inr (Some p)
      else first_below t cutoff ks (p + 1))"

definition exact_new :: "int \<Rightarrow> rat \<Rightarrow> int \<Rightarrow> error + exact_table" where
  "exact_new K hsize n =
     (if K \<le> 0 then Inl ConfigError else Inr \<lparr>tk = nat K, counts = (\<lambda>key. 0)\<rparr>)"

definition exact_median :: "exact_table \<Rightarrow> string \<Rightarrow> error + int" where
  "exact_median t s =
     (if length s < tk t then Inl TooShort
      else if \<not> list_all valid_base s then Inl InvalidBase
      else Inr (int (median (map (get_count t) (kmers (tk t) s)))))"

definition exact_consume :: "exact_table \<Rightarrow> string \<Rightarrow> error + exact_table" where
  "exact_consume t s =
     (if \<not> list_all (list_all valid_base) (kmers (tk t) s) then Inl InvalidBase
      else Inr (foldl count_up t (kmers (tk t) s)))"

definition exact_trim :: "exact_table \<Rightarrow> string \<Rightarrow> int \<Rightarrow> error + int" where
  "exact_trim t s cutoff =
     (if length s < tk t then Inr (int (length s))
      else case first_below t cutoff (kmers (tk t) s) 0 of
             Inl e \<Rightarrow> Inl e
           | Inr None \<Rightarrow> Inr (int (length s))
           | Inr (Some p) \<Rightarrow> Inr (int p + int (tk t) - 1))"

definition exact_hash :: "exact_table counting_hash" where
  "exact_hash =
     \<lparr>new_counting_hash = exact_new, get_median_count = exact_median,
      consume = exact_consume, trim_on_abundance = exact_trim,
      calc_expected_collisions = (\<lambda>t. 0)\<rparr>"

text \<open>An environment for examples: the exact table, the given items per input file, a
  temporary directory named after the pattern of \<^verbatim>\<open>mkdtemp('khmer', 'tmp', dir)\<close>, and
  writes that never fail.\<close>

definition example_env :: "(path \<Rightarrow> error + item list) \<Rightarrow> exact_table env" where
  "example_env src =
     \<lparr>table = exact_hash, source = src, mkdtemp = (\<lambda>d. join d ''tmp0khmer''),
      write_fails = (\<lambda>p rs r. False)\<rparr>"

definition example_args :: "int \<Rightarrow> int \<Rightarrow> int \<Rightarrow> bool \<Rightarrow> path list \<Rightarrow> args" where
  "example_args K C Z V fns =
     \<lparr>ksize = K, n_hashes = 4, min_hashsize = 1000000, abund_cutoff = C, normalize_to = Z,
      variable_coverage = V, tempdir = ''./'', input_filenames = fns\<rparr>"

definition empty_world :: world where
  "empty_world = \<lparr>w_files = Map.empty, w_dirs = {}, w_stderr = []\<rparr>"

definition fasta :: "string \<Rightarrow> string \<Rightarrow> read" where
  "fasta n s = \<lparr>name = n, sequence = s, accuracy = None\<rparr>"


text \<open>The exact table with K = 2 after \<^verbatim>\<open>consume('CCCC')\<close>, and a state of \<^verbatim>\<open>main\<close>
  that holds it.\<close>

definition table_CC :: exact_table where
  "table_CC = foldl count_up \<lparr>tk = 2, counts = (\<lambda>key. 0)\<rparr> (kmers 2 ''CCCC'')"

definition example_state :: "exact_table state" where
  "example_state = init_state table_CC ''./tmp0khmer'' empty_world"

definition no_source :: "path \<Rightarrow> error + item list" where
  "no_source f = Inl IOError"


text \<open>An input file \<^verbatim>\<open>r.fa\<close>: a single record, then a pair whose first mate starts
  with a k-mer (\<^verbatim>\<open>AC\<close>) that nothing else holds.\<close>

definition pair_source :: "path \<Rightarrow> error + item list" where
  "pair_source f =
     (if f = ''r.fa'' then
        Inr [Unpaired (fasta ''a'' ''CCCC''),
             Paired (fasta ''b/1'' ''ACCC'') (fasta ''b/2'' ''CCCC'')]
      else Inl IOError)"

subsection \<open>Notions used in the statements\<close>

text \<open>The records of an item, and of a list of items, in the order read.\<close>

fun reads_of_item :: "item \<Rightarrow> read list" where
  "reads_of_item (Unpaired r) = [r]"
| "reads_of_item (Paired r1 r2) = [r1, r2]"

definition reads_of :: "item list \<Rightarrow> read list" where
  "reads_of its = concat (map reads_of_item its)"

text \<open>A table that raises on every sequence outside \<open>ok\<close> and otherwise is \<open>T\<close>.\<close>

definition restrict_to :: "(string \<Rightarrow> bool) \<Rightarrow> 't counting_hash \<Rightarrow> 't counting_hash" where
  "restrict_to ok T =
     T\<lparr>get_median_count := (\<lambda>h q. if ok q then get_median_count T h q else Inl InvalidBase),
       consume := (\<lambda>h q. if ok q then consume T h q else Inl InvalidBase),
       trim_on_abundance :=
         (\<lambda>h q c. if ok q then trim_on_abundance T h q c else Inl InvalidBase)\<rparr>"

text \<open>\<open>out\<close> is \<open>r\<close> as the run may write it: \<open>r\<close> itself, or \<open>r\<close> cut by
  \<^verbatim>\<open>trim_record\<close>.\<close>

definition cut_of :: "read \<Rightarrow> read \<Rightarrow> bool" where
  "cut_of out r \<longleftrightarrow> out = r \<or> (\<exists>t. out = trim_record r t)"

text \<open>The records a file holds; none when it is not there.\<close>

definition held :: "(path \<rightharpoonup> read list) \<Rightarrow> path \<Rightarrow> read list" where
  "held m p = (case m p of None \<Rightarrow> [] | Some rs \<Rightarrow> rs)"

text \<open>
  From the files \<open>m\<close> to the files \<open>m'\<close>, the deferred store \<open>P\<close> and the output \<open>T\<close>
  have grown by records of \<open>rs\<close>, each used at most once: \<open>P\<close> by records as they are,
  \<open>T\<close> by cuts. No other file has changed and no file is gone.
\<close>

definition grows ::
  "path \<Rightarrow> path \<Rightarrow> read list \<Rightarrow> (path \<rightharpoonup> read list) \<Rightarrow> (path \<rightharpoonup> read list) \<Rightarrow> bool" where
  "grows P T rs m m' \<longleftrightarrow>
     (\<exists>d e sel. held m' P = held m P @ d \<and> held m' T = held m T @ e
        \<and> list_all2 cut_of e sel \<and> mset sel + mset d \<subseteq># mset rs)
   \<and> (\<forall>p. p \<noteq> P \<longrightarrow> p \<noteq> T \<longrightarrow> m' p = m p)
   \<and> (\<forall>p. m p \<noteq> None \<longrightarrow> m' p \<noteq> None)"

text \<open>The same for the second pass, where only the output grows.\<close>

definition emits ::
  "path \<Rightarrow> read list \<Rightarrow> (path \<rightharpoonup> read list) \<Rightarrow> (path \<rightharpoonup> read list) \<Rightarrow> bool" where
  "emits T rs m m' \<longleftrightarrow>
     (\<exists>e sel. held m' T = held m T @ e \<and> list_all2 cut_of e sel \<and> mset sel \<subseteq># mset rs)
   \<and> (\<forall>p. p \<noteq> T \<longrightarrow> m' p = m p)
   \<and> (m T \<noteq> None \<longrightarrow> m' T \<noteq> None)"

text \<open>
  The files of input file \<open>f\<close> after the first pass: the deferred store and the output
  exist and hold records of \<open>f\<close>, no record of \<open>f\<close> in both or twice in one. And after the
  second pass: the deferred store is gone, and the output holds cuts of records of \<open>f\<close>,
  each record used at most once.
\<close>

definition after_pass1 :: "'t env \<Rightarrow> path \<Rightarrow> path \<Rightarrow> (path \<rightharpoonup> read list) \<Rightarrow> bool" where
  "after_pass1 E tmp f m \<longleftrightarrow>
     (\<exists>its d e sel. source E f = Inr its
        \<and> m (pass2filename_of tmp f) = Some d \<and> m (trimfilename_of f) = Some e
        \<and> list_all2 cut_of e sel \<and> mset sel + mset d \<subseteq># mset (reads_of its))"

definition after_pass2 :: "'t env \<Rightarrow> path \<Rightarrow> path \<Rightarrow> (path \<rightharpoonup> read list) \<Rightarrow> bool" where
  "after_pass2 E tmp f m \<longleftrightarrow>
     (\<exists>its out sel. source E f = Inr its
        \<and> m (pass2filename_of tmp f) = None \<and> m (trimfilename_of f) = Some out
        \<and> list_all2 cut_of out sel \<and> mset sel \<subseteq># mset (reads_of its))"

text \<open>The entry of \<^verbatim>\<open>pass2list\<close> for an input file.\<close>

definition entry_of :: "path \<Rightarrow> path \<Rightarrow> path \<times> path \<times> path" where
  "entry_of tmp f = (f, pass2filename_of tmp f, trimfilename_of f)"

text \<open>
  What the final output keeps of an input record \<open>r\<close>: the name; a prefix of the
  sequence as the input has it; and, when \<open>r\<close> has a quality string, a prefix of that
  string, of the length of the sequence written whenever \<open>r\<close> is well formed (quality
  and sequence of the same length).
\<close>

definition kept_bases :: "read \<Rightarrow> read \<Rightarrow> bool" where
  "kept_bases out r \<longleftrightarrow>
     name out = name r \<and> prefix (sequence out) (sequence r)
     \<and> (case accuracy r of
          None \<Rightarrow> accuracy out = None
        | Some a \<Rightarrow>
            (case accuracy out of
               None \<Rightarrow> False
             | Some b \<Rightarrow> prefix b a
                 \<and> (length a = length (sequence r) \<longrightarrow> length b = length (sequence out))))"


text \<open>The example run with a table that reports a false-positive rate of 0.9.\<close>

definition undersized_env :: "exact_table env" where
  "undersized_env = (example_env pair_source)
     \<lparr>table := exact_hash\<lparr>calc_expected_collisions := (\<lambda>t. 9 / 10)\<rparr>\<rparr>"

text \<open>The state in which the loop over the items of the first input file \<open>f\<close> starts:
  the table \<open>h\<close> is there, the temporary directory is made, and the deferred store and
  the output of \<open>f\<close> are open and empty.\<close>

definition first_file_start :: "'t env \<Rightarrow> args \<Rightarrow> 't \<Rightarrow> world \<Rightarrow> path \<Rightarrow> 't state" where
  "first_file_start E A h w f =
     (let tmp = mkdtemp E (tempdir A);
          pass2filename = pass2filename_of tmp f;
          trimfilename = trimfilename_of f
      in (open_w trimfilename (open_w pass2filename
            ((init_state h tmp w)\<lparr>pass2list := [(f, pass2filename, trimfilename)]\<rparr>)))
         \<lparr>save_pass2 := 0\<rparr>)"


text \<open>The environment \<open>E\<close> with another estimate of the false-positive rate.\<close>

definition with_estimate :: "('t \<Rightarrow> rat) \<Rightarrow> 't env \<Rightarrow> 't env" where
  "with_estimate g E = E\<lparr>table := (table E)\<lparr>calc_expected_collisions := g\<rparr>\<rparr>"

text \<open>An input file that yields no record, and two input files with the same base
  name.\<close>

definition empty_source :: "path \<Rightarrow> error + item list" where
  "empty_source f = (if f = ''r.fa'' then Inr [] else Inl IOError)"

definition twin_source :: "path \<Rightarrow> error + item list" where
  "twin_source f =
     (if f = ''a/r.fa'' then Inr [Unpaired (fasta ''x'' ''GGGG'')]
      else if f = ''b/r.fa'' then Inr [Unpaired (fasta ''y'' ''CCCC'')]
      else Inl IOError)"

section \<open>Properties\<close>

subsection \<open>Step lemmas\<close>

lemma write_record_Done:
  "\<not> write_fails E p (contents s p) r \<Longrightarrow>
   write_record E r p s = Done (s\<lparr>files := (files s)(p \<mapsto> contents s p @ [r])\<rparr>)"
  by (simp add: write_record_def)

lemma write_record_Raised:
  "write_fails E p (contents s p) r \<Longrightarrow> write_record E r p s = Raised IOError s"
  by (simp add: write_record_def)

subsection \<open>The second pass, record by record\<close>

text \<open>
  C3. A record \<open>rd\<close> of a deferred store, in the second pass, with recomputed median
  \<open>med\<close>. With \<^verbatim>\<open>variable_coverage\<close> set and \<open>med\<close> below \<^verbatim>\<open>NORMALIZE_LIMIT\<close>, the
  record itself, unchanged, is appended to the output (when the write does not fail).
  Otherwise \<^verbatim>\<open>trim_on_abundance\<close> is applied: with \<open>trim_at \<ge> K\<close> the record cut at
  \<open>trim_at\<close> is appended, with \<open>trim_at < K\<close> nothing is written and the state stays as
  it was. In every case no other file changes, and the table is not touched.
\<close>

theorem pass2_read_outcome:
  assumes med: "get_median_count (table E) (ht s) (replace_N_A (sequence rd)) = Inr med"
  shows "(med < normalize_to A \<and> variable_coverage A
            \<and> \<not> write_fails E T (contents s T) rd \<longrightarrow>
          is_Done (pass2_read E A T rd s)
            \<and> files (state_of (pass2_read E A T rd s)) T = Some (contents s T @ [rd]))
       \<and> (\<not> (med < normalize_to A \<and> variable_coverage A) \<longrightarrow>
          (\<forall>trim_at.
             trim_on_abundance (table E) (ht s) (replace_N_A (sequence rd)) (abund_cutoff A)
               = Inr trim_at \<longrightarrow>
             (ksize A \<le> trim_at
                \<and> \<not> write_fails E T (contents s T) (trim_record rd trim_at) \<longrightarrow>
              is_Done (pass2_read E A T rd s)
                \<and> files (state_of (pass2_read E A T rd s)) T
                    = Some (contents s T @ [trim_record rd trim_at]))
           \<and> (trim_at < ksize A \<longrightarrow> pass2_read E A T rd s = Done s)))
       \<and> (\<forall>p. p \<noteq> T \<longrightarrow> files (state_of (pass2_read E A T rd s)) p = files s p)
       \<and> ht (state_of (pass2_read E A T rd s)) = ht s"
  using med
  by (auto simp: pass2_read_def write_record_def Let_def split: sum.splits)

text \<open>An instance: with \<^verbatim>\<open>-V\<close>, the record \<^verbatim>\<open>ANNA\<close> (median 0, limit 2) is written
  as it is, the two \<^verbatim>\<open>N\<close> included.\<close>

theorem pass2_read_outcome_witness:
  "get_median_count (table (example_env no_source)) (ht example_state)
      (replace_N_A (sequence (fasta ''a'' ''ANNA''))) = Inr 0
   \<and> is_Done (pass2_read (example_env no_source) (example_args 2 1 2 True [''r.fa''])
        ''r.fa.abundtrim'' (fasta ''a'' ''ANNA'') example_state)
   \<and> files (state_of (pass2_read (example_env no_source) (example_args 2 1 2 True [''r.fa''])
        ''r.fa.abundtrim'' (fasta ''a'' ''ANNA'') example_state)) ''r.fa.abundtrim''
      = Some [fasta ''a'' ''ANNA'']"
proof -
  have h: "get_median_count (table (example_env no_source)) (ht example_state)
      (replace_N_A (sequence (fasta ''a'' ''ANNA''))) = Inr 0"
    by code_simp
  have c: "contents example_state ''r.fa.abundtrim'' = []"
    by (simp add: contents_def example_state_def init_state_def empty_world_def)
  have a: "(0::int) < normalize_to (example_args 2 1 2 True [''r.fa''])
     \<and> variable_coverage (example_args 2 1 2 True [''r.fa''])
     \<and> \<not> write_fails (example_env no_source) ''r.fa.abundtrim''
          (contents example_state ''r.fa.abundtrim'') (fasta ''a'' ''ANNA'')"
    by (simp add: example_args_def example_env_def)
  from pass2_read_outcome [OF h, of "example_args 2 1 2 True [''r.fa'']" "''r.fa.abundtrim''"] a c
  show ?thesis using h by simp
qed

subsection \<open>The first pass, item by item\<close>

text \<open>
  C2. A pair in the first pass, with the medians \<open>med1\<close> and \<open>med2\<close> of its mates. When
  one of them is below \<^verbatim>\<open>NORMALIZE_LIMIT\<close>, nothing is written to the output, whatever
  happens; and when the table takes both mates and the writes do not fail, both mates are
  consumed (the first, then the second) and both are appended, unchanged, to the deferred
  store. When both medians reach the limit, the deferred store and the table stay as
  they are, and both mates are appended to the output, each cut at its \<open>trim_at\<close> when
  that is at least K.
\<close>

theorem pass1_pair_atomic:
  assumes m1: "get_median_count (table E) (ht s) (replace_N_A (sequence r1)) = Inr med1"
      and m2: "get_median_count (table E) (ht s) (replace_N_A (sequence r2)) = Inr med2"
      and PT: "P \<noteq> T"
  shows "(med1 < normalize_to A \<or> med2 < normalize_to A \<longrightarrow>
            files (state_of (pass1_pair E A P T r1 r2 s)) T = files s T
          \<and> (\<forall>h1 h2.
               consume (table E) (ht s) (replace_N_A (sequence r1)) = Inr h1
             \<and> consume (table E) h1 (replace_N_A (sequence r2)) = Inr h2
             \<and> \<not> write_fails E P (contents s P) r1
             \<and> \<not> write_fails E P (contents s P @ [r1]) r2 \<longrightarrow>
               is_Done (pass1_pair E A P T r1 r2 s)
             \<and> ht (state_of (pass1_pair E A P T r1 r2 s)) = h2
             \<and> files (state_of (pass1_pair E A P T r1 r2 s)) P
                 = Some (contents s P @ [r1, r2])))
       \<and> (\<not> (med1 < normalize_to A \<or> med2 < normalize_to A) \<longrightarrow>
            files (state_of (pass1_pair E A P T r1 r2 s)) P = files s P
          \<and> ht (state_of (pass1_pair E A P T r1 r2 s)) = ht s
          \<and> (\<forall>t1 t2.
               trim_on_abundance (table E) (ht s) (replace_N_A (sequence r1)) (abund_cutoff A)
                 = Inr t1
             \<and> trim_on_abundance (table E) (ht s) (replace_N_A (sequence r2)) (abund_cutoff A)
                 = Inr t2
             \<and> \<not> write_fails E T (contents s T)
                   (if ksize A \<le> t1 then trim_record r1 t1 else r1)
             \<and> \<not> write_fails E T
                   (contents s T @ [if ksize A \<le> t1 then trim_record r1 t1 else r1])
                   (if ksize A \<le> t2 then trim_record r2 t2 else r2) \<longrightarrow>
               is_Done (pass1_pair E A P T r1 r2 s)
             \<and> files (state_of (pass1_pair E A P T r1 r2 s)) T
                 = Some (contents s T @ [if ksize A \<le> t1 then trim_record r1 t1 else r1,
                                         if ksize A \<le> t2 then trim_record r2 t2 else r2])))"
  using m1 m2 PT
  by (auto simp: pass1_pair_def write_record_pair_def write_record_def Let_def contents_def
           split: sum.splits)

text \<open>An instance: the first mate has median 3, the second median 0, the limit is 2;
  both go to the deferred store and none to the output.\<close>

theorem pass1_pair_atomic_witness:
  "get_median_count (table (example_env no_source)) (ht example_state)
      (replace_N_A (sequence (fasta ''p/1'' ''CCCC''))) = Inr 3
   \<and> get_median_count (table (example_env no_source)) (ht example_state)
      (replace_N_A (sequence (fasta ''p/2'' ''ACAC''))) = Inr 0
   \<and> ''./tmp0khmer/r.fa.pass2'' \<noteq> ''r.fa.abundtrim''
   \<and> is_Done (pass1_pair (example_env no_source) (example_args 2 1 2 False [''r.fa''])
        ''./tmp0khmer/r.fa.pass2'' ''r.fa.abundtrim''
        (fasta ''p/1'' ''CCCC'') (fasta ''p/2'' ''ACAC'') example_state)
   \<and> files (state_of (pass1_pair (example_env no_source) (example_args 2 1 2 False [''r.fa''])
        ''./tmp0khmer/r.fa.pass2'' ''r.fa.abundtrim''
        (fasta ''p/1'' ''CCCC'') (fasta ''p/2'' ''ACAC'') example_state))
        ''./tmp0khmer/r.fa.pass2''
      = Some [fasta ''p/1'' ''CCCC'', fasta ''p/2'' ''ACAC'']
   \<and> files (state_of (pass1_pair (example_env no_source) (example_args 2 1 2 False [''r.fa''])
        ''./tmp0khmer/r.fa.pass2'' ''r.fa.abundtrim''
        (fasta ''p/1'' ''CCCC'') (fasta ''p/2'' ''ACAC'') example_state))
        ''r.fa.abundtrim''
      = None"
proof -
  let ?E = "example_env no_source" and ?A = "example_args 2 1 2 False [''r.fa'']"
  let ?r1 = "fasta ''p/1'' ''CCCC''" and ?r2 = "fasta ''p/2'' ''ACAC''"
  let ?P = "''./tmp0khmer/r.fa.pass2''" and ?T = "''r.fa.abundtrim''"
  have m1: "get_median_count (table ?E) (ht example_state) (replace_N_A (sequence ?r1)) = Inr 3"
    by code_simp
  have m2: "get_median_count (table ?E) (ht example_state) (replace_N_A (sequence ?r2)) = Inr 0"
    by code_simp
  have PT: "?P \<noteq> ?T" by simp
  have "case consume (table ?E) (ht example_state) (replace_N_A (sequence ?r1)) of
          Inl e \<Rightarrow> False
        | Inr h1 \<Rightarrow> (case consume (table ?E) h1 (replace_N_A (sequence ?r2)) of
                       Inl e \<Rightarrow> False | Inr h2 \<Rightarrow> True)"
    by code_simp
  then obtain h1 h2 where
    c: "consume (table ?E) (ht example_state) (replace_N_A (sequence ?r1)) = Inr h1"
       "consume (table ?E) h1 (replace_N_A (sequence ?r2)) = Inr h2"
    by (auto split: sum.splits)
  have f: "files example_state = Map.empty"
    by (simp add: example_state_def init_state_def empty_world_def)
  have w: "\<And>p rs r. \<not> write_fails ?E p rs r" by (simp add: example_env_def)
  have lim: "(0::int) < normalize_to ?A" by (simp add: example_args_def)
  from pass1_pair_atomic [OF m1 m2 PT, of ?A] lim c w f
  have "is_Done (pass1_pair ?E ?A ?P ?T ?r1 ?r2 example_state)
      \<and> files (state_of (pass1_pair ?E ?A ?P ?T ?r1 ?r2 example_state)) ?P = Some [?r1, ?r2]
      \<and> files (state_of (pass1_pair ?E ?A ?P ?T ?r1 ?r2 example_state)) ?T = None"
    by (simp add: contents_def)
  with m1 m2 PT show ?thesis by blast
qed

text \<open>A single record in the first pass, with median \<open>med\<close>: below the limit it is
  consumed and appended to the deferred store, and the output stays as it is; otherwise
  it is appended to the output, cut at \<open>trim_at\<close>, when \<open>trim_at \<ge> K\<close>, and no file
  changes when \<open>trim_at < K\<close>.\<close>

theorem pass1_single_outcome:
  assumes med: "get_median_count (table E) (ht s) (replace_N_A (sequence rd)) = Inr med"
      and PT: "P \<noteq> T"
  shows "(med < normalize_to A \<longrightarrow>
            files (state_of (pass1_single E A P T rd s)) T = files s T
          \<and> (\<forall>h. consume (table E) (ht s) (replace_N_A (sequence rd)) = Inr h
                 \<and> \<not> write_fails E P (contents s P) rd \<longrightarrow>
               is_Done (pass1_single E A P T rd s)
             \<and> ht (state_of (pass1_single E A P T rd s)) = h
             \<and> files (state_of (pass1_single E A P T rd s)) P = Some (contents s P @ [rd])))
       \<and> (\<not> med < normalize_to A \<longrightarrow>
            files (state_of (pass1_single E A P T rd s)) P = files s P
          \<and> ht (state_of (pass1_single E A P T rd s)) = ht s
          \<and> (\<forall>trim_at.
               trim_on_abundance (table E) (ht s) (replace_N_A (sequence rd)) (abund_cutoff A)
                 = Inr trim_at \<longrightarrow>
               (ksize A \<le> trim_at
                  \<and> \<not> write_fails E T (contents s T) (trim_record rd trim_at) \<longrightarrow>
                is_Done (pass1_single E A P T rd s)
                  \<and> files (state_of (pass1_single E A P T rd s)) T
                      = Some (contents s T @ [trim_record rd trim_at]))
             \<and> (trim_at < ksize A \<longrightarrow>
                  is_Done (pass1_single E A P T rd s)
                  \<and> files (state_of (pass1_single E A P T rd s)) = files s)))"
  using med PT
  by (auto simp: pass1_single_def write_record_def Let_def contents_def split: sum.splits)

text \<open>
  C1. The claim holds for a single record, as just proved, and fails for the mates of
  a pair. In the run below, with K = 2, cutoff 1 and limit 2, the table holds
  \<^verbatim>\<open>CC\<close> three times when the pair arrives. Both mates have median 3. The first mate,
  \<^verbatim>\<open>ACCC\<close>, has \<open>trim_at = 1 < K\<close>: the claim has it dropped, the code writes it with
  all four bases, and adds \<open>trim_at\<close> to \<^verbatim>\<open>wrote_bp\<close>, which counts 5 bases for the 8
  written.
\<close>

theorem pair_mate_below_K_written:
  "exact_median table_CC ''ACCC'' = Inr 3
   \<and> exact_median table_CC ''CCCC'' = Inr 3
   \<and> exact_trim table_CC ''ACCC'' 1 = Inr 1
   \<and> files (state_of (pass1_pair (example_env no_source) (example_args 2 1 2 False [''r.fa''])
        ''./tmp0khmer/r.fa.pass2'' ''r.fa.abundtrim''
        (fasta ''b/1'' ''ACCC'') (fasta ''b/2'' ''CCCC'') example_state)) ''r.fa.abundtrim''
      = Some [fasta ''b/1'' ''ACCC'', fasta ''b/2'' ''CCCC'']
   \<and> wrote_bp (state_of (pass1_pair (example_env no_source) (example_args 2 1 2 False [''r.fa''])
        ''./tmp0khmer/r.fa.pass2'' ''r.fa.abundtrim''
        (fasta ''b/1'' ''ACCC'') (fasta ''b/2'' ''CCCC'') example_state)) = 5
   \<and> fst (main (example_env pair_source) (example_args 2 1 2 False [''r.fa'']) empty_world)
       = Success
   \<and> w_files (snd (main (example_env pair_source) (example_args 2 1 2 False [''r.fa''])
        empty_world)) ''r.fa.abundtrim''
       = Some [fasta ''b/1'' ''ACCC'', fasta ''b/2'' ''CCCC'', fasta ''a'' ''CCCC'']"
  by code_simp

subsection \<open>What the table is asked\<close>

lemma no_N_replace: "CHR ''N'' \<notin> set (replace_N_A x)"
  by (auto simp: replace_N_A_def)

lemma write_record_table: "write_record (E\<lparr>table := X\<rparr>) = write_record E"
  by (intro ext) (simp add: write_record_def)

lemma write_record_pair_table: "write_record_pair (E\<lparr>table := X\<rparr>) = write_record_pair E"
  by (intro ext) (simp add: write_record_pair_def write_record_table)

lemma restrict_single:
  "ok (replace_N_A (sequence rd)) \<Longrightarrow>
   pass1_single (E\<lparr>table := restrict_to ok (table E)\<rparr>) A P T rd s = pass1_single E A P T rd s"
  by (simp add: pass1_single_def restrict_to_def write_record_table Let_def
        cong: sum.case_cong if_cong)

lemma restrict_pair:
  "ok (replace_N_A (sequence r1)) \<Longrightarrow> ok (replace_N_A (sequence r2)) \<Longrightarrow>
   pass1_pair (E\<lparr>table := restrict_to ok (table E)\<rparr>) A P T r1 r2 s = pass1_pair E A P T r1 r2 s"
  by (simp add: pass1_pair_def restrict_to_def write_record_pair_table Let_def
        cong: sum.case_cong if_cong)

lemma restrict_read:
  "ok (replace_N_A (sequence rd)) \<Longrightarrow>
   pass2_read (E\<lparr>table := restrict_to ok (table E)\<rparr>) A T rd s = pass2_read E A T rd s"
  by (simp add: pass2_read_def restrict_to_def write_record_table Let_def
        cong: sum.case_cong if_cong)

lemma restrict_item:
  "pass1_item (E\<lparr>table := restrict_to (\<lambda>q. CHR ''N'' \<notin> set q) (table E)\<rparr>) A P T it s
     = pass1_item E A P T it s"
  by (cases it) (simp_all add: restrict_single restrict_pair no_N_replace)

lemma restrict_pass1_loop:
  "pass1_loop (E\<lparr>table := restrict_to (\<lambda>q. CHR ''N'' \<notin> set q) (table E)\<rparr>) A P T its s
     = pass1_loop E A P T its s"
proof (induction its arbitrary: s)
  case Nil
  show ?case by simp
next
  case (Cons it its)
  show ?case
    by (cases "pass1_item E A P T it (s\<lparr>n_bound := True\<rparr>)")
       (simp_all add: restrict_item Cons.IH)
qed

lemma restrict_pass2_loop:
  "pass2_loop (E\<lparr>table := restrict_to (\<lambda>q. CHR ''N'' \<notin> set q) (table E)\<rparr>) A T rds s
     = pass2_loop E A T rds s"
proof (induction rds arbitrary: s)
  case Nil
  show ?case by simp
next
  case (Cons rd rds)
  show ?case
    by (cases "pass2_read E A T rd (s\<lparr>n_bound := True\<rparr>)")
       (simp_all add: restrict_read no_N_replace Cons.IH)
qed

lemma restrict_pass1_file:
  "pass1_file (E\<lparr>table := restrict_to (\<lambda>q. CHR ''N'' \<notin> set q) (table E)\<rparr>) A tmp f s
     = pass1_file E A tmp f s"
  by (simp add: pass1_file_def restrict_pass1_loop Let_def cong: sum.case_cong)

lemma restrict_first_pass:
  "first_pass (E\<lparr>table := restrict_to (\<lambda>q. CHR ''N'' \<notin> set q) (table E)\<rparr>) A tmp fs s
     = first_pass E A tmp fs s"
proof (induction fs arbitrary: s)
  case Nil
  show ?case by simp
next
  case (Cons f fs)
  show ?case
    by (cases "pass1_file E A tmp f s") (simp_all add: restrict_pass1_file Cons.IH)
qed

lemma restrict_pass2_file:
  "pass2_file (E\<lparr>table := restrict_to (\<lambda>q. CHR ''N'' \<notin> set q) (table E)\<rparr>) A entry s
     = pass2_file E A entry s"
  by (cases entry) (simp add: restrict_pass2_loop Let_def cong: option.case_cong)

lemma restrict_second_pass:
  "second_pass (E\<lparr>table := restrict_to (\<lambda>q. CHR ''N'' \<notin> set q) (table E)\<rparr>) A es s
     = second_pass E A es s"
proof (induction es arbitrary: s)
  case Nil
  show ?case by simp
next
  case (Cons e es)
  show ?case
    by (cases "pass2_file E A e s") (simp_all add: restrict_pass2_file Cons.IH)
qed

lemma restrict_run_passes:
  "run_passes (E\<lparr>table := restrict_to (\<lambda>q. CHR ''N'' \<notin> set q) (table E)\<rparr>) A h w
     = run_passes E A h w"
  by (simp add: run_passes_def restrict_first_pass restrict_second_pass Let_def)

lemma restrict_finish: "finish (E\<lparr>table := restrict_to ok (table E)\<rparr>) s = finish E s"
  by (simp add: finish_def restrict_to_def)

lemma restrict_new:
  "new_counting_hash (restrict_to ok X) = new_counting_hash X"
  by (simp add: restrict_to_def)

text \<open>
  C9. The table is only ever handed sequences in which every \<^verbatim>\<open>N\<close> has been replaced
  by \<^verbatim>\<open>A\<close>. A table that raises on every sequence containing an \<^verbatim>\<open>N\<close> gives the same
  run of \<^verbatim>\<open>main\<close>, whatever the input. Record by record, in both passes, the table may
  even raise on every sequence but the substituted sequence of the record at hand (of the
  two mates, for a pair): the median query, \<^verbatim>\<open>consume\<close> and \<^verbatim>\<open>trim_on_abundance\<close> are
  applied to that sequence and to no other. The substituted sequence has \<^verbatim>\<open>A\<close> where the
  record has \<^verbatim>\<open>N\<close>, and the record's base everywhere else.
\<close>

theorem table_sees_substituted_sequences:
  "main (E\<lparr>table := restrict_to (\<lambda>q. CHR ''N'' \<notin> set q) (table E)\<rparr>) A w = main E A w
   \<and> pass1_single (E\<lparr>table := restrict_to (\<lambda>q. q = replace_N_A (sequence rd)) (table E)\<rparr>)
        A P T rd s = pass1_single E A P T rd s
   \<and> pass1_pair (E\<lparr>table := restrict_to
          (\<lambda>q. q = replace_N_A (sequence r1) \<or> q = replace_N_A (sequence r2)) (table E)\<rparr>)
        A P T r1 r2 s = pass1_pair E A P T r1 r2 s
   \<and> pass2_read (E\<lparr>table := restrict_to (\<lambda>q. q = replace_N_A (sequence rd)) (table E)\<rparr>)
        A T rd s = pass2_read E A T rd s
   \<and> list_all2 (\<lambda>c d. d = (if c = CHR ''N'' then CHR ''A'' else c)) x (replace_N_A x)"
proof -
  have "main (E\<lparr>table := restrict_to (\<lambda>q. CHR ''N'' \<notin> set q) (table E)\<rparr>) A w = main E A w"
    by (simp add: main_def restrict_run_passes restrict_finish restrict_new
          cong: sum.case_cong res.case_cong)
  moreover have "list_all2 (\<lambda>c d. d = (if c = CHR ''N'' then CHR ''A'' else c)) x (replace_N_A x)"
    by (simp add: replace_N_A_def list_all2_conv_all_nth)
  ultimately show ?thesis
    by (simp add: restrict_single restrict_pair restrict_read)
qed

subsection \<open>Paths\<close>

lemma basename_no_slash: "CHR ''/'' \<notin> set (basename f)"
  by (auto simp: basename_def dest: set_takeWhileD)

lemma last_join: "b \<noteq> [] \<Longrightarrow> last (join a b) = last b"
  by (simp add: join_def)

lemma pass2_ne_trim: "pass2filename_of tmp f \<noteq> trimfilename_of g"
proof
  assume "pass2filename_of tmp f = trimfilename_of g"
  then have "last (pass2filename_of tmp f) = last (trimfilename_of g)" by simp
  then show False
    by (simp add: pass2filename_of_def trimfilename_of_def last_join)
qed

lemma trim_eq_iff: "trimfilename_of f = trimfilename_of g \<longleftrightarrow> basename f = basename g"
  by (simp add: trimfilename_of_def)

lemma pass2_eq_iff:
  "pass2filename_of tmp f = pass2filename_of tmp g \<longleftrightarrow> basename f = basename g"
proof -
  have hd: "\<And>x. hd (basename x @ ''.pass2'') \<noteq> CHR ''/''"
  proof -
    fix x
    show "hd (basename x @ ''.pass2'') \<noteq> CHR ''/''"
      using basename_no_slash [of x]
      by (cases "basename x") auto
  qed
  show ?thesis
    using hd [of f] hd [of g]
    by (auto simp: pass2filename_of_def join_def)
qed

lemma not_inside_trim: "\<not> inside tmp (trimfilename_of f)"
proof
  assume "inside tmp (trimfilename_of f)"
  then obtain d where d: "prefix d (trimfilename_of f)" "d \<noteq> []" "last d = CHR ''/''"
    by (auto simp: inside_def split: if_splits)
  then have "CHR ''/'' \<in> set d" by (metis last_in_set)
  with d(1) have "CHR ''/'' \<in> set (trimfilename_of f)"
    by (auto simp: prefix_def)
  then show False
    using basename_no_slash [of f] by (auto simp: trimfilename_of_def)
qed

subsection \<open>Growth of the files\<close>

lemma contents_held: "contents s p = held (files s) p"
  by (simp add: contents_def held_def)

lemma held_upd [simp]: "held (m(p \<mapsto> rs)) q = (if q = p then rs else held m q)"
  by (simp add: held_def)

lemma grows_none: "grows P T rs m m"
  unfolding grows_def
  by (intro conjI exI [of _ "[]"]) simp_all

lemma grows_trans:
  assumes "grows P T rs1 m m1" and "grows P T rs2 m1 m2"
  shows "grows P T (rs1 @ rs2) m m2"
proof -
  from assms(1) obtain d1 e1 sel1 where
    1: "held m1 P = held m P @ d1" "held m1 T = held m T @ e1"
       "list_all2 cut_of e1 sel1" "mset sel1 + mset d1 \<subseteq># mset rs1"
    and f1: "\<forall>p. p \<noteq> P \<longrightarrow> p \<noteq> T \<longrightarrow> m1 p = m p" "\<forall>p. m p \<noteq> None \<longrightarrow> m1 p \<noteq> None"
    unfolding grows_def by blast
  from assms(2) obtain d2 e2 sel2 where
    2: "held m2 P = held m1 P @ d2" "held m2 T = held m1 T @ e2"
       "list_all2 cut_of e2 sel2" "mset sel2 + mset d2 \<subseteq># mset rs2"
    and f2: "\<forall>p. p \<noteq> P \<longrightarrow> p \<noteq> T \<longrightarrow> m2 p = m1 p" "\<forall>p. m1 p \<noteq> None \<longrightarrow> m2 p \<noteq> None"
    unfolding grows_def by blast
  have a: "held m2 P = held m P @ (d1 @ d2)" using 1(1) 2(1) by simp
  have b: "held m2 T = held m T @ (e1 @ e2)" using 1(2) 2(2) by simp
  have c: "list_all2 cut_of (e1 @ e2) (sel1 @ sel2)"
    using 1(3) 2(3) by (rule list_all2_appendI)
  have "(mset sel1 + mset d1) + (mset sel2 + mset d2) \<subseteq># mset rs1 + mset rs2"
    using 1(4) 2(4) by (rule subset_mset.add_mono)
  then have d: "mset (sel1 @ sel2) + mset (d1 @ d2) \<subseteq># mset (rs1 @ rs2)"
    by (simp add: ac_simps)
  show ?thesis
    unfolding grows_def using a b c d f1 f2 by (intro conjI exI) auto
qed

lemma grows_mono:
  assumes "grows P T rs m m'" and "mset rs \<subseteq># mset rs'"
  shows "grows P T rs' m m'"
  using assms unfolding grows_def
  by (meson subset_mset.order_trans)

lemma grows_write_P:
  assumes "P \<noteq> T" and "r \<in> set rs"
  shows "grows P T rs m (m(P \<mapsto> held m P @ [r]))"
  unfolding grows_def
proof (intro conjI exI)
  show "held (m(P \<mapsto> held m P @ [r])) P = held m P @ [r]" by simp
  show "held (m(P \<mapsto> held m P @ [r])) T = held m T @ []" using assms(1) by simp
  show "list_all2 cut_of [] []" by simp
  show "mset [] + mset [r] \<subseteq># mset rs" using assms(2) by simp
qed auto

lemma grows_write_T:
  assumes "P \<noteq> T" and "r \<in> set rs" and "cut_of out r"
  shows "grows P T rs m (m(T \<mapsto> held m T @ [out]))"
  unfolding grows_def
proof (intro conjI exI)
  show "held (m(T \<mapsto> held m T @ [out])) P = held m P @ []" using assms(1) by simp
  show "held (m(T \<mapsto> held m T @ [out])) T = held m T @ [out]" by simp
  show "list_all2 cut_of [out] [r]" using assms(3) by simp
  show "mset [r] + mset [] \<subseteq># mset rs" using assms(2) by simp
qed auto

lemma cut_of_self: "cut_of r r"
  by (simp add: cut_of_def)

lemma cut_of_trim: "cut_of (trim_record r t) r"
  by (auto simp: cut_of_def)

lemma files_write_record:
  "files (state_of (write_record E r p s)) =
     (if write_fails E p (contents s p) r then files s
      else (files s)(p \<mapsto> held (files s) p @ [r]))"
  by (simp add: write_record_def contents_held)

lemma write_P_grows:
  "P \<noteq> T \<Longrightarrow> r \<in> set rs \<Longrightarrow> files s = m \<Longrightarrow>
   grows P T rs m (files (state_of (write_record E r P s)))"
  by (auto simp: files_write_record grows_none grows_write_P)

lemma write_T_grows:
  "P \<noteq> T \<Longrightarrow> r \<in> set rs \<Longrightarrow> cut_of out r \<Longrightarrow> files s = m \<Longrightarrow>
   grows P T rs m (files (state_of (write_record E out T s)))"
  by (auto simp: files_write_record grows_none grows_write_T)

lemma state_of_thn:
  "state_of (thn R f) = (case R of Done s \<Rightarrow> state_of (f s) | Raised e s \<Rightarrow> s)"
  by (cases R) simp_all

lemma files_thn_Done:
  "(\<And>x. files (g x) = files x) \<Longrightarrow>
   files (state_of (thn R (\<lambda>s. Done (g s)))) = files (state_of R)"
  by (cases R) simp_all

lemma pair_P_grows:
  assumes "P \<noteq> T" and "files s = m"
  shows "grows P T [r1, r2] m (files (state_of (write_record_pair E r1 r2 P s)))"
proof (cases "write_record E r1 P s")
  case (Done s1)
  then have s1: "files s1 = files (state_of (write_record E r1 P s))" by simp
  have "grows P T [r1] m (files s1)"
    unfolding s1 using assms by (intro write_P_grows) simp_all
  moreover have "grows P T [r2] (files s1) (files (state_of (write_record E r2 P s1)))"
    using assms by (intro write_P_grows) simp_all
  ultimately have "grows P T ([r1] @ [r2]) m (files (state_of (write_record E r2 P s1)))"
    by (rule grows_trans)
  then show ?thesis by (simp add: write_record_pair_def Done)
next
  case (Raised e s1)
  then have s1: "files s1 = files (state_of (write_record E r1 P s))" by simp
  have "grows P T [r1, r2] m (files s1)"
    unfolding s1 using assms by (intro write_P_grows) simp_all
  then show ?thesis by (simp add: write_record_pair_def Raised)
qed

lemma pair_T_grows:
  assumes "P \<noteq> T" and "files s = m" and "cut_of o1 r1" and "cut_of o2 r2"
  shows "grows P T [r1, r2] m (files (state_of (write_record_pair E o1 o2 T s)))"
proof (cases "write_record E o1 T s")
  case (Done s1)
  then have s1: "files s1 = files (state_of (write_record E o1 T s))" by simp
  have "grows P T [r1] m (files s1)"
    unfolding s1 using assms by (intro write_T_grows) simp_all
  moreover have "grows P T [r2] (files s1) (files (state_of (write_record E o2 T s1)))"
    using assms by (intro write_T_grows) simp_all
  ultimately have "grows P T ([r1] @ [r2]) m (files (state_of (write_record E o2 T s1)))"
    by (rule grows_trans)
  then show ?thesis by (simp add: write_record_pair_def Done)
next
  case (Raised e s1)
  then have s1: "files s1 = files (state_of (write_record E o1 T s))" by simp
  have "grows P T [r1, r2] m (files s1)"
    unfolding s1 using assms by (intro write_T_grows) simp_all
  then show ?thesis by (simp add: write_record_pair_def Raised)
qed

lemma pass1_single_grows:
  assumes "P \<noteq> T"
  shows "grows P T [rd] (files s) (files (state_of (pass1_single E A P T rd s)))"
  using assms
  by (auto simp: pass1_single_def Let_def files_thn_Done grows_none cut_of_trim
           intro!: write_P_grows write_T_grows split: sum.splits)

lemma pass1_pair_grows:
  assumes "P \<noteq> T"
  shows "grows P T [r1, r2] (files s) (files (state_of (pass1_pair E A P T r1 r2 s)))"
  using assms
  by (auto simp: pass1_pair_def Let_def files_thn_Done grows_none cut_of_trim cut_of_self
           intro!: pair_P_grows pair_T_grows split: sum.splits)

lemma pass1_item_grows:
  "P \<noteq> T \<Longrightarrow>
   grows P T (reads_of_item it) (files s) (files (state_of (pass1_item E A P T it s)))"
  by (cases it) (simp_all add: pass1_single_grows pass1_pair_grows)

lemma pass1_loop_grows:
  assumes "P \<noteq> T"
  shows "grows P T (reads_of its) (files s) (files (state_of (pass1_loop E A P T its s)))"
proof (induction its arbitrary: s)
  case Nil
  show ?case by (simp add: grows_none)
next
  case (Cons it its)
  let ?R = "pass1_item E A P T it (s\<lparr>n_bound := True\<rparr>)"
  have step: "grows P T (reads_of_item it) (files s) (files (state_of ?R))"
    using pass1_item_grows [OF assms, of it "s\<lparr>n_bound := True\<rparr>" E A] by simp
  show ?case
  proof (cases ?R)
    case (Done s1)
    with step have "grows P T (reads_of_item it) (files s) (files s1)" by simp
    from grows_trans [OF this Cons.IH [of s1]]
    show ?thesis by (simp add: Done reads_of_def)
  next
    case (Raised e s1)
    with step have "grows P T (reads_of_item it) (files s) (files s1)" by simp
    then have "grows P T (reads_of (it # its)) (files s) (files s1)"
      by (rule grows_mono) (simp add: reads_of_def)
    then show ?thesis by (simp add: Raised)
  qed
qed

subsection \<open>The first pass over the input files\<close>

lemma thn_Done_iff: "thn R g = Done s' \<longleftrightarrow> (\<exists>s1. R = Done s1 \<and> g s1 = Done s')"
  by (cases R) simp_all

lemma write_record_keeps:
  "dirs (state_of (write_record E r p s)) = dirs s
   \<and> pass2list (state_of (write_record E r p s)) = pass2list s"
  by (simp add: write_record_def)

lemma write_record_pair_keeps:
  "dirs (state_of (write_record_pair E r1 r2 p s)) = dirs s
   \<and> pass2list (state_of (write_record_pair E r1 r2 p s)) = pass2list s"
proof (cases "write_record E r1 p s")
  case (Done s1)
  with write_record_keeps [of E r1 p s] write_record_keeps [of E r2 p s1]
  show ?thesis by (simp add: write_record_pair_def)
next
  case (Raised e s1)
  with write_record_keeps [of E r1 p s]
  show ?thesis by (simp add: write_record_pair_def)
qed

lemma keeps_thn_Done:
  "(\<And>x. dirs (g x) = dirs x \<and> pass2list (g x) = pass2list x) \<Longrightarrow>
   dirs (state_of (thn R (\<lambda>s. Done (g s)))) = dirs (state_of R)
   \<and> pass2list (state_of (thn R (\<lambda>s. Done (g s)))) = pass2list (state_of R)"
  by (cases R) simp_all

lemma pass1_single_keeps:
  "dirs (state_of (pass1_single E A P T rd s)) = dirs s
   \<and> pass2list (state_of (pass1_single E A P T rd s)) = pass2list s"
  by (auto simp: pass1_single_def Let_def keeps_thn_Done write_record_keeps split: sum.splits)

lemma pass1_pair_keeps:
  "dirs (state_of (pass1_pair E A P T r1 r2 s)) = dirs s
   \<and> pass2list (state_of (pass1_pair E A P T r1 r2 s)) = pass2list s"
  by (auto simp: pass1_pair_def Let_def keeps_thn_Done write_record_pair_keeps
           split: sum.splits)

lemma pass1_item_keeps:
  "dirs (state_of (pass1_item E A P T it s)) = dirs s
   \<and> pass2list (state_of (pass1_item E A P T it s)) = pass2list s"
  by (cases it) (simp_all add: pass1_single_keeps pass1_pair_keeps)

lemma pass1_loop_keeps:
  "dirs (state_of (pass1_loop E A P T its s)) = dirs s
   \<and> pass2list (state_of (pass1_loop E A P T its s)) = pass2list s"
proof (induction its arbitrary: s)
  case Nil
  show ?case by simp
next
  case (Cons it its)
  show ?case
    using pass1_item_keeps [of E A P T it "s\<lparr>n_bound := True\<rparr>"] Cons.IH
    by (cases "pass1_item E A P T it (s\<lparr>n_bound := True\<rparr>)") simp_all
qed

lemma pass1_file_Done:
  assumes "pass1_file E A tmp f s = Done s'"
  shows "after_pass1 E tmp f (files s')"
    and "\<forall>p. p \<noteq> pass2filename_of tmp f \<longrightarrow> p \<noteq> trimfilename_of f \<longrightarrow> files s' p = files s p"
    and "pass2list s' = pass2list s @ [entry_of tmp f]"
    and "dirs s' = dirs s"
proof -
  let ?P = "pass2filename_of tmp f" and ?T = "trimfilename_of f"
  let ?s0 = "s\<lparr>pass2list := pass2list s @ [(f, ?P, ?T)]\<rparr>"
  let ?s1 = "(open_w ?T (open_w ?P ?s0))\<lparr>save_pass2 := 0\<rparr>"
  from assms obtain its where its: "source E f = Inr its"
    by (cases "source E f") (simp_all add: pass1_file_def Let_def)
  let ?R = "pass1_loop E A ?P ?T its ?s1"
  from assms its obtain s2 where s2: "?R = Done s2"
    and s': "s' = s2\<lparr>save_pass2_total := save_pass2_total s2 + save_pass2 s2\<rparr>"
    by (auto simp: pass1_file_def Let_def thn_Done_iff split: if_splits)
  have PT: "?P \<noteq> ?T" by (rule pass2_ne_trim)
  have g: "grows ?P ?T (reads_of its) (files ?s1) (files s2)"
    using pass1_loop_grows [OF PT, of its ?s1 E A] s2 by simp
  have m1: "files ?s1 = (files s)(?P \<mapsto> [], ?T \<mapsto> [])"
    by (simp add: open_w_def)
  from g obtain d e sel where
    de: "held (files s2) ?P = held (files ?s1) ?P @ d" "held (files s2) ?T = held (files ?s1) ?T @ e"
        "list_all2 cut_of e sel" "mset sel + mset d \<subseteq># mset (reads_of its)"
    and fr: "\<forall>p. p \<noteq> ?P \<longrightarrow> p \<noteq> ?T \<longrightarrow> files s2 p = files ?s1 p"
    and ex: "\<forall>p. files ?s1 p \<noteq> None \<longrightarrow> files s2 p \<noteq> None"
    unfolding grows_def by blast
  from ex m1 PT obtain d' e' where some: "files s2 ?P = Some d'" "files s2 ?T = Some e'"
    by (metis fun_upd_same fun_upd_other option.exhaust option.distinct(1))
  with de(1,2) m1 PT have "d' = d" "e' = e" by (simp_all add: held_def)
  with some de its show "after_pass1 E tmp f (files s')"
    unfolding after_pass1_def s' by auto
  show "\<forall>p. p \<noteq> ?P \<longrightarrow> p \<noteq> ?T \<longrightarrow> files s' p = files s p"
    using fr m1 by (simp add: s')
  have "dirs s2 = dirs ?s1 \<and> pass2list s2 = pass2list ?s1"
    using pass1_loop_keeps [of E A ?P ?T its ?s1] s2 by simp
  then show "pass2list s' = pass2list s @ [entry_of tmp f]" and "dirs s' = dirs s"
    by (simp_all add: s' open_w_def entry_of_def)
qed

lemma after_pass1_frame:
  assumes "after_pass1 E tmp f m"
      and "m' (pass2filename_of tmp f) = m (pass2filename_of tmp f)"
      and "m' (trimfilename_of f) = m (trimfilename_of f)"
  shows "after_pass1 E tmp f m'"
  using assms unfolding after_pass1_def by simp

lemma other_paths:
  assumes "basename f \<notin> basename ` set fs"
  shows "\<forall>g\<in>set fs. pass2filename_of tmp f \<noteq> pass2filename_of tmp g
                    \<and> pass2filename_of tmp f \<noteq> trimfilename_of g
                    \<and> trimfilename_of f \<noteq> pass2filename_of tmp g
                    \<and> trimfilename_of f \<noteq> trimfilename_of g"
  using assms pass2_ne_trim
  by (auto simp: pass2_eq_iff trim_eq_iff) metis+

lemma first_pass_Done:
  assumes "distinct (map basename fs)" and "first_pass E A tmp fs s = Done s'"
  shows "(\<forall>f\<in>set fs. after_pass1 E tmp f (files s'))
       \<and> (\<forall>p. (\<forall>f\<in>set fs. p \<noteq> pass2filename_of tmp f \<and> p \<noteq> trimfilename_of f)
             \<longrightarrow> files s' p = files s p)
       \<and> pass2list s' = pass2list s @ map (entry_of tmp) fs
       \<and> dirs s' = dirs s"
  using assms
proof (induction fs arbitrary: s)
  case Nil
  then show ?case by simp
next
  case (Cons f fs)
  from Cons.prems(2) obtain s1 where
    s1: "pass1_file E A tmp f s = Done s1" and rest: "first_pass E A tmp fs s1 = Done s'"
    by (auto simp: thn_Done_iff)
  from Cons.prems(1) have dist: "distinct (map basename fs)"
    and new: "basename f \<notin> basename ` set fs" by simp_all
  note IH = Cons.IH [OF dist rest]
  note F = pass1_file_Done [OF s1]
  note O = other_paths [OF new, of tmp]
  have keepP: "files s' (pass2filename_of tmp f) = files s1 (pass2filename_of tmp f)"
    using IH O by blast
  have keepT: "files s' (trimfilename_of f) = files s1 (trimfilename_of f)"
    using IH O by blast
  have "after_pass1 E tmp f (files s')"
    using F(1) keepP keepT by (rule after_pass1_frame)
  moreover have "\<forall>p. (\<forall>g\<in>set (f # fs). p \<noteq> pass2filename_of tmp g \<and> p \<noteq> trimfilename_of g)
             \<longrightarrow> files s' p = files s p"
    using IH F(2) by simp
  ultimately show ?case
    using IH F(3,4) by simp
qed

subsection \<open>The second pass over the deferred stores\<close>

lemma emits_none: "emits T rs m m"
  unfolding emits_def
  by (intro conjI exI [of _ "[]"]) simp_all

lemma emits_trans:
  assumes "emits T rs1 m m1" and "emits T rs2 m1 m2"
  shows "emits T (rs1 @ rs2) m m2"
proof -
  from assms(1) obtain e1 sel1 where
    1: "held m1 T = held m T @ e1" "list_all2 cut_of e1 sel1" "mset sel1 \<subseteq># mset rs1"
    and f1: "\<forall>p. p \<noteq> T \<longrightarrow> m1 p = m p" "m T \<noteq> None \<longrightarrow> m1 T \<noteq> None"
    unfolding emits_def by blast
  from assms(2) obtain e2 sel2 where
    2: "held m2 T = held m1 T @ e2" "list_all2 cut_of e2 sel2" "mset sel2 \<subseteq># mset rs2"
    and f2: "\<forall>p. p \<noteq> T \<longrightarrow> m2 p = m1 p" "m1 T \<noteq> None \<longrightarrow> m2 T \<noteq> None"
    unfolding emits_def by blast
  have b: "held m2 T = held m T @ (e1 @ e2)" using 1(1) 2(1) by simp
  have c: "list_all2 cut_of (e1 @ e2) (sel1 @ sel2)"
    using 1(2) 2(2) by (rule list_all2_appendI)
  have "mset sel1 + mset sel2 \<subseteq># mset rs1 + mset rs2"
    using 1(3) 2(3) by (rule subset_mset.add_mono)
  then have d: "mset (sel1 @ sel2) \<subseteq># mset (rs1 @ rs2)" by simp
  show ?thesis
    unfolding emits_def using b c d f1 f2 by (intro conjI exI) auto
qed

lemma emits_mono:
  assumes "emits T rs m m'" and "mset rs \<subseteq># mset rs'"
  shows "emits T rs' m m'"
  using assms unfolding emits_def
  by (meson subset_mset.order_trans)

lemma emits_write:
  assumes "r \<in> set rs" and "cut_of out r"
  shows "emits T rs m (m(T \<mapsto> held m T @ [out]))"
  unfolding emits_def
proof (intro conjI exI)
  show "held (m(T \<mapsto> held m T @ [out])) T = held m T @ [out]" by simp
  show "list_all2 cut_of [out] [r]" using assms(2) by simp
  show "mset [r] \<subseteq># mset rs" using assms(1) by simp
qed auto

lemma write_emits:
  "r \<in> set rs \<Longrightarrow> cut_of out r \<Longrightarrow> files s = m \<Longrightarrow>
   emits T rs m (files (state_of (write_record E out T s)))"
  by (auto simp: files_write_record emits_none emits_write)

lemma pass2_read_emits:
  "emits T [rd] (files s) (files (state_of (pass2_read E A T rd s)))"
  by (auto simp: pass2_read_def Let_def files_thn_Done emits_none cut_of_trim cut_of_self
           intro!: write_emits split: sum.splits)

lemma pass2_loop_emits:
  "emits T rds (files s) (files (state_of (pass2_loop E A T rds s)))"
proof (induction rds arbitrary: s)
  case Nil
  show ?case by (simp add: emits_none)
next
  case (Cons rd rds)
  let ?R = "pass2_read E A T rd (s\<lparr>n_bound := True\<rparr>)"
  have step: "emits T [rd] (files s) (files (state_of ?R))"
    using pass2_read_emits [of T rd "s\<lparr>n_bound := True\<rparr>" E A] by simp
  show ?case
  proof (cases ?R)
    case (Done s1)
    with step have "emits T [rd] (files s) (files s1)" by simp
    from emits_trans [OF this Cons.IH [of s1]]
    show ?thesis by (simp add: Done)
  next
    case (Raised e s1)
    with step have "emits T [rd] (files s) (files s1)" by simp
    then have "emits T (rd # rds) (files s) (files s1)"
      by (rule emits_mono) simp
    then show ?thesis by (simp add: Raised)
  qed
qed

lemma pass2_read_keeps:
  "dirs (state_of (pass2_read E A T rd s)) = dirs s
   \<and> pass2list (state_of (pass2_read E A T rd s)) = pass2list s"
  by (auto simp: pass2_read_def Let_def keeps_thn_Done write_record_keeps split: sum.splits)

lemma pass2_loop_keeps:
  "dirs (state_of (pass2_loop E A T rds s)) = dirs s
   \<and> pass2list (state_of (pass2_loop E A T rds s)) = pass2list s"
proof (induction rds arbitrary: s)
  case Nil
  show ?case by simp
next
  case (Cons rd rds)
  show ?case
    using pass2_read_keeps [of E A T rd "s\<lparr>n_bound := True\<rparr>"] Cons.IH
    by (cases "pass2_read E A T rd (s\<lparr>n_bound := True\<rparr>)") simp_all
qed

text \<open>What one entry of \<^verbatim>\<open>pass2list\<close> does to the files, completed or not: only the
  output and the deferred store can change, and the store can only go.\<close>

lemma pass2_file_frame:
  assumes "P \<noteq> T"
  shows "(\<forall>p. p \<noteq> T \<longrightarrow> p \<noteq> P \<longrightarrow> files (state_of (pass2_file E A (f, P, T) s)) p = files s p)
       \<and> (files (state_of (pass2_file E A (f, P, T) s)) P = files s P
          \<or> files (state_of (pass2_file E A (f, P, T) s)) P = None)
       \<and> dirs (state_of (pass2_file E A (f, P, T) s)) = dirs s"
proof (cases "files s P")
  case None
  with assms show ?thesis by (simp add: open_a_def Let_def)
next
  case (Some rds)
  let ?s1 = "open_a T s"
  let ?R = "pass2_loop E A T rds ?s1"
  have m1: "\<forall>p. p \<noteq> T \<longrightarrow> files ?s1 p = files s p" by (simp add: open_a_def)
  have e: "\<forall>p. p \<noteq> T \<longrightarrow> files (state_of ?R) p = files ?s1 p"
    using pass2_loop_emits [of T rds ?s1 E A] unfolding emits_def by blast
  have k: "dirs (state_of ?R) = dirs s"
    using pass2_loop_keeps [of E A T rds ?s1] by (simp add: open_a_def)
  have R: "pass2_file E A (f, P, T) s = thn ?R (unlink P)"
    using Some assms by (simp add: Let_def open_a_def)
  show ?thesis
  proof (cases ?R)
    case (Done s2)
    with e m1 k assms Some show ?thesis
      unfolding R by (auto simp: unlink_def split: option.splits)
  next
    case (Raised err s2)
    with e m1 k assms show ?thesis
      unfolding R by simp
  qed
qed

lemma pass2_file_Done:
  assumes "pass2_file E A (f, P, T) s = Done s'" and "P \<noteq> T"
  shows "files s' P = None"
    and "\<exists>d e sel. files s P = Some d \<and> files s' T = Some (held (files s) T @ e)
           \<and> list_all2 cut_of e sel \<and> mset sel \<subseteq># mset d"
proof -
  let ?s1 = "open_a T s"
  from assms obtain rds where rds: "files s P = Some rds"
    by (cases "files s P") (simp_all add: Let_def open_a_def)
  let ?R = "pass2_loop E A T rds ?s1"
  have R: "pass2_file E A (f, P, T) s = thn ?R (unlink P)"
    using rds assms(2) by (simp add: Let_def open_a_def)
  from assms(1) have "thn ?R (unlink P) = Done s'" unfolding R .
  then obtain s2 where s2: "?R = Done s2" and u: "unlink P s2 = Done s'"
    by (auto simp: thn_Done_iff)
  from u have s': "files s' = (files s2)(P := None)"
    by (auto simp: unlink_def split: option.splits)
  then show "files s' P = None" by simp
  have "emits T rds (files ?s1) (files s2)"
    using pass2_loop_emits [of T rds ?s1 E A] s2 by simp
  then obtain e sel where
    e: "held (files s2) T = held (files ?s1) T @ e" "list_all2 cut_of e sel"
       "mset sel \<subseteq># mset rds"
    and ex: "files ?s1 T \<noteq> None \<longrightarrow> files s2 T \<noteq> None"
    unfolding emits_def by blast
  have "files ?s1 T = Some (held (files s) T)"
    by (simp add: open_a_def contents_held)
  with e(1) ex have "files s2 T = Some (held (files s) T @ e)"
    by (auto simp: held_def)
  with assms(2) s' have "files s' T = Some (held (files s) T @ e)" by simp
  with rds e show "\<exists>d e sel. files s P = Some d \<and> files s' T = Some (held (files s) T @ e)
           \<and> list_all2 cut_of e sel \<and> mset sel \<subseteq># mset d"
    by blast
qed

lemma pass2_entry_frame:
  "(\<forall>p. p \<noteq> trimfilename_of f \<longrightarrow> p \<noteq> pass2filename_of tmp f \<longrightarrow>
        files (state_of (pass2_file E A (entry_of tmp f) s)) p = files s p)
   \<and> (files (state_of (pass2_file E A (entry_of tmp f) s)) (pass2filename_of tmp f)
         = files s (pass2filename_of tmp f)
      \<or> files (state_of (pass2_file E A (entry_of tmp f) s)) (pass2filename_of tmp f) = None)
   \<and> dirs (state_of (pass2_file E A (entry_of tmp f) s)) = dirs s"
  unfolding entry_of_def by (rule pass2_file_frame) (rule pass2_ne_trim)


lemma after_pass2_frame:
  assumes "after_pass2 E tmp f m"
      and "m' (pass2filename_of tmp f) = m (pass2filename_of tmp f)"
      and "m' (trimfilename_of f) = m (trimfilename_of f)"
  shows "after_pass2 E tmp f m'"
  using assms unfolding after_pass2_def by simp

lemma pass2_file_after:
  assumes "pass2_file E A (entry_of tmp f) s = Done s'" and "after_pass1 E tmp f (files s)"
  shows "after_pass2 E tmp f (files s')"
proof -
  let ?P = "pass2filename_of tmp f" and ?T = "trimfilename_of f"
  have PT: "?P \<noteq> ?T" by (rule pass2_ne_trim)
  from assms(1) have D: "pass2_file E A (f, ?P, ?T) s = Done s'" by (simp add: entry_of_def)
  from assms(2) obtain its d e sel where
    a: "source E f = Inr its" "files s ?P = Some d" "files s ?T = Some e"
       "list_all2 cut_of e sel" "mset sel + mset d \<subseteq># mset (reads_of its)"
    unfolding after_pass1_def by blast
  from pass2_file_Done(2) [OF D PT] a(2) obtain e' sel' where
    b: "files s' ?T = Some (held (files s) ?T @ e')" "list_all2 cut_of e' sel'"
       "mset sel' \<subseteq># mset d"
    by auto
  have "held (files s) ?T = e" using a(3) by (simp add: held_def)
  with b(1) have out: "files s' ?T = Some (e @ e')" by simp
  have c: "list_all2 cut_of (e @ e') (sel @ sel')"
    using a(4) b(2) by (rule list_all2_appendI)
  have "mset sel + mset sel' \<subseteq># mset sel + mset d"
    using b(3) by simp
  from subset_mset.order_trans [OF this a(5)]
  have "mset (sel @ sel') \<subseteq># mset (reads_of its)" by simp
  with a(1) out c pass2_file_Done(1) [OF D PT] show ?thesis
    unfolding after_pass2_def by blast
qed

lemma second_pass_Done:
  assumes "distinct (map basename fs)"
      and "second_pass E A (map (entry_of tmp) fs) s = Done s'"
      and "\<forall>f\<in>set fs. after_pass1 E tmp f (files s)"
  shows "(\<forall>f\<in>set fs. after_pass2 E tmp f (files s'))
       \<and> (\<forall>p. (\<forall>f\<in>set fs. p \<noteq> pass2filename_of tmp f \<and> p \<noteq> trimfilename_of f)
             \<longrightarrow> files s' p = files s p)"
  using assms
proof (induction fs arbitrary: s)
  case Nil
  then show ?case by simp
next
  case (Cons f fs)
  let ?P = "pass2filename_of tmp f" and ?T = "trimfilename_of f"
  from Cons.prems(2) obtain s1 where
    s1: "pass2_file E A (entry_of tmp f) s = Done s1"
    and rest: "second_pass E A (map (entry_of tmp) fs) s1 = Done s'"
    by (auto simp: thn_Done_iff)
  from Cons.prems(1) have dist: "distinct (map basename fs)"
    and new: "basename f \<notin> basename ` set fs" by simp_all
  note O = other_paths [OF new, of tmp]
  have PT: "?P \<noteq> ?T" by (rule pass2_ne_trim)
  have fr: "\<forall>p. p \<noteq> ?T \<longrightarrow> p \<noteq> ?P \<longrightarrow> files s1 p = files s p"
    using pass2_entry_frame [of f tmp E A s] s1 by simp
  have pre: "\<forall>g\<in>set fs. after_pass1 E tmp g (files s1)"
  proof
    fix g assume g: "g \<in> set fs"
    with Cons.prems(3) have "after_pass1 E tmp g (files s)" by simp
    moreover have "files s1 (pass2filename_of tmp g) = files s (pass2filename_of tmp g)"
      using fr O g by metis
    moreover have "files s1 (trimfilename_of g) = files s (trimfilename_of g)"
      using fr O g by metis
    ultimately show "after_pass1 E tmp g (files s1)" by (rule after_pass1_frame)
  qed
  note IH = Cons.IH [OF dist rest pre]
  have f2: "after_pass2 E tmp f (files s1)"
    using pass2_file_after [OF s1] Cons.prems(3) by simp
  have keepP: "files s' ?P = files s1 ?P" using IH O by blast
  have keepT: "files s' ?T = files s1 ?T" using IH O by blast
  have "after_pass2 E tmp f (files s')"
    using f2 keepP keepT by (rule after_pass2_frame)
  moreover have "\<forall>p. (\<forall>g\<in>set (f # fs). p \<noteq> pass2filename_of tmp g \<and> p \<noteq> trimfilename_of g)
             \<longrightarrow> files s' p = files s p"
    using IH fr by simp
  ultimately show ?case using IH by simp
qed

lemma second_pass_keeps_dirs:
  "dirs (state_of (second_pass E A (map (entry_of tmp) fs) s)) = dirs s"
proof (induction fs arbitrary: s)
  case Nil
  show ?case by simp
next
  case (Cons f fs)
  have d: "dirs (state_of (pass2_file E A (entry_of tmp f) s)) = dirs s"
    using pass2_entry_frame [of f tmp E A s] by simp
  show ?case
    using d Cons.IH
    by (cases "pass2_file E A (entry_of tmp f) s") simp_all
qed



subsection \<open>The whole run\<close>

lemma first_pass_pass2list:
  assumes "first_pass E A tmp fs s = Done s'"
  shows "pass2list s' = pass2list s @ map (entry_of tmp) fs \<and> dirs s' = dirs s"
  using assms
proof (induction fs arbitrary: s)
  case Nil
  then show ?case by simp
next
  case (Cons f fs)
  from Cons.prems obtain s1 where
    s1: "pass1_file E A tmp f s = Done s1" and rest: "first_pass E A tmp fs s1 = Done s'"
    by (auto simp: thn_Done_iff)
  from pass1_file_Done(3,4) [OF s1] Cons.IH [OF rest] show ?case by simp
qed

lemma run_passes_Done:
  assumes "run_passes E A h w = Done s"
  obtains s1 s2 where
    "first_pass E A (mkdtemp E (tempdir A)) (input_filenames A)
       (init_state h (mkdtemp E (tempdir A)) w) = Done s1"
    and "second_pass E A (map (entry_of (mkdtemp E (tempdir A))) (input_filenames A)) s1 = Done s2"
    and "s = rmtree (mkdtemp E (tempdir A)) s2"
proof -
  let ?tmp = "mkdtemp E (tempdir A)"
  from assms obtain s1 s2 where
    1: "first_pass E A ?tmp (input_filenames A) (init_state h ?tmp w) = Done s1"
    and 2: "second_pass E A (pass2list s1) s1 = Done s2"
    and 3: "s = rmtree ?tmp s2"
    by (auto simp: run_passes_def Let_def thn_Done_iff)
  from first_pass_pass2list [OF 1]
  have "pass2list s1 = map (entry_of ?tmp) (input_filenames A)"
    by (simp add: init_state_def)
  with 1 2 3 that show thesis by simp
qed

lemma main_completed:
  assumes "distinct (input_filenames A)"
      and "fst (main E A w) = Success \<or> fst (main E A w) = SysExit 1"
  obtains h s where
    "new_counting_hash (table E) (ksize A) (min_hashsize A) (n_hashes A) = Inr h"
    and "run_passes E A h w = Done s"
    and "w_files (snd (main E A w)) = files s"
    and "w_dirs (snd (main E A w)) = dirs s"
proof -
  from assms(1) have c: "card (set (input_filenames A)) = length (input_filenames A)"
    by (rule distinct_card)
  from assms(2) c obtain h where
    h: "new_counting_hash (table E) (ksize A) (min_hashsize A) (n_hashes A) = Inr h"
    by (cases "new_counting_hash (table E) (ksize A) (min_hashsize A) (n_hashes A)")
       (auto simp: main_def)
  from assms(2) c h obtain s where s: "run_passes E A h w = Done s"
    by (cases "run_passes E A h w") (auto simp: main_def)
  from c h s have m: "main E A w = finish E s" by (simp add: main_def)
  have "w_files (snd (finish E s)) = files s \<and> w_dirs (snd (finish E s)) = dirs s"
    by (simp add: finish_def world_of_def Let_def)
  with h s m that show thesis by simp
qed

lemma rmtree_files:
  "files (rmtree d s) p = (if inside d p then None else files s p)"
  by (simp add: rmtree_def)

lemma after_pass2_rmtree:
  assumes "after_pass2 E tmp f (files s)"
  shows "after_pass2 E tmp f (files (rmtree d s))"
proof -
  have "files (rmtree d s) (trimfilename_of f) = files s (trimfilename_of f)"
    by (simp add: rmtree_files not_inside_trim)
  moreover from assms have "files s (pass2filename_of tmp f) = None"
    unfolding after_pass2_def by blast
  then have "files (rmtree d s) (pass2filename_of tmp f) = None"
    by (simp add: rmtree_files)
  ultimately show ?thesis
    using assms unfolding after_pass2_def by auto
qed

lemma run_passes_after:
  assumes "distinct (map basename (input_filenames A))" and "run_passes E A h w = Done s"
  shows "\<forall>f\<in>set (input_filenames A). after_pass2 E (mkdtemp E (tempdir A)) f (files s)"
proof -
  let ?tmp = "mkdtemp E (tempdir A)"
  from assms(2) obtain s1 s2 where
    1: "first_pass E A ?tmp (input_filenames A) (init_state h ?tmp w) = Done s1"
    and 2: "second_pass E A (map (entry_of ?tmp) (input_filenames A)) s1 = Done s2"
    and 3: "s = rmtree ?tmp s2"
    by (rule run_passes_Done)
  from first_pass_Done [OF assms(1) 1]
  have "\<forall>f\<in>set (input_filenames A). after_pass1 E ?tmp f (files s1)" by blast
  from second_pass_Done [OF assms(1) 2 this]
  have "\<forall>f\<in>set (input_filenames A). after_pass2 E ?tmp f (files s2)" by blast
  then show ?thesis unfolding 3 by (blast intro: after_pass2_rmtree)
qed


lemma slice_to_prefix: "prefix (slice_to n xs) xs"
  by (simp add: slice_to_def take_is_prefix)

lemma kept_bases_trim: "kept_bases (trim_record r t) r"
  by (auto simp: kept_bases_def trim_record_def slice_to_def take_is_prefix
           split: option.splits)

lemma kept_bases_self: "kept_bases r r"
  by (auto simp: kept_bases_def split: option.splits)

lemma cut_kept: "cut_of out r \<Longrightarrow> kept_bases out r"
  by (auto simp: cut_of_def kept_bases_trim kept_bases_self)

lemma list_all2_cut_kept:
  assumes "list_all2 cut_of out sel"
  shows "\<forall>x\<in>set out. \<exists>r\<in>set sel. kept_bases x r"
  using assms by (induction rule: list_all2_induct) (auto intro: cut_kept)

subsection \<open>What a run leaves in the files\<close>

lemma grows_kept:
  assumes "grows P T rs (files s) (files s')"
  shows "\<exists>e. contents s' T = contents s T @ e \<and> (\<forall>x\<in>set e. \<exists>r\<in>set rs. kept_bases x r)"
proof -
  from assms obtain d e sel where
    e: "held (files s') T = held (files s) T @ e" "list_all2 cut_of e sel"
       "mset sel + mset d \<subseteq># mset rs"
    unfolding grows_def by blast
  from e(3) have "mset sel \<subseteq># mset rs"
    by (metis mset_subset_eq_add_left subset_mset.order_trans)
  then have "set sel \<subseteq> set rs" by (metis set_mset_mono set_mset_mset)
  with list_all2_cut_kept [OF e(2)] have "\<forall>x\<in>set e. \<exists>r\<in>set rs. kept_bases x r" by blast
  with e(1) show ?thesis by (auto simp: contents_held)
qed

lemma emits_kept:
  assumes "emits T rs (files s) (files s')"
  shows "\<exists>e. contents s' T = contents s T @ e \<and> (\<forall>x\<in>set e. \<exists>r\<in>set rs. kept_bases x r)"
proof -
  from assms obtain e sel where
    e: "held (files s') T = held (files s) T @ e" "list_all2 cut_of e sel"
       "mset sel \<subseteq># mset rs"
    unfolding emits_def by blast
  from e(3) have "set sel \<subseteq> set rs" by (metis set_mset_mono set_mset_mset)
  with list_all2_cut_kept [OF e(2)] have "\<forall>x\<in>set e. \<exists>r\<in>set rs. kept_bases x r" by blast
  with e(1) show ?thesis by (auto simp: contents_held)
qed



text \<open>
  C10. The output keeps the input's bases. \<^verbatim>\<open>trim_record\<close> keeps the name, a prefix of
  the sequence and a prefix of the quality, of the same length as the sequence when they
  had the same length before. Every record a step of either pass adds to the output is
  such a copy of a record of the item at hand, with the sequence as read, before
  \<^verbatim>\<open>N\<close> was replaced. And when a run over input files with distinct base names ends
  without an uncaught exception, every record of every output file is such a copy of a
  record of its input file.
\<close>

theorem output_keeps_input_bases:
  "kept_bases (trim_record r t) r
   \<and> (P \<noteq> T \<longrightarrow>
       (\<exists>e. contents (state_of (pass1_item E A P T it s)) T = contents s T @ e
          \<and> (\<forall>x\<in>set e. \<exists>r\<in>set (reads_of_item it). kept_bases x r)))
   \<and> (\<exists>e. contents (state_of (pass2_read E A T rd s)) T = contents s T @ e
          \<and> (\<forall>x\<in>set e. kept_bases x rd))
   \<and> (distinct (map basename (input_filenames A))
        \<and> (fst (main E A w) = Success \<or> fst (main E A w) = SysExit 1) \<longrightarrow>
      (\<forall>f\<in>set (input_filenames A). \<exists>its out.
         source E f = Inr its
         \<and> w_files (snd (main E A w)) (trimfilename_of f) = Some out
         \<and> (\<forall>x\<in>set out. \<exists>r\<in>set (reads_of its). kept_bases x r)))"
proof (intro conjI impI)
  show "kept_bases (trim_record r t) r" by (rule kept_bases_trim)
next
  assume "P \<noteq> T"
  then have "grows P T (reads_of_item it) (files s) (files (state_of (pass1_item E A P T it s)))"
    by (rule pass1_item_grows)
  then show "\<exists>e. contents (state_of (pass1_item E A P T it s)) T = contents s T @ e
          \<and> (\<forall>x\<in>set e. \<exists>r\<in>set (reads_of_item it). kept_bases x r)"
    by (rule grows_kept)
next
  have "emits T [rd] (files s) (files (state_of (pass2_read E A T rd s)))"
    by (rule pass2_read_emits)
  from emits_kept [OF this]
  show "\<exists>e. contents (state_of (pass2_read E A T rd s)) T = contents s T @ e
          \<and> (\<forall>x\<in>set e. kept_bases x rd)"
    by simp
next
  assume a: "distinct (map basename (input_filenames A))
        \<and> (fst (main E A w) = Success \<or> fst (main E A w) = SysExit 1)"
  then have d: "distinct (input_filenames A)" by (simp add: distinct_map)
  from a obtain h s' where
    r: "run_passes E A h w = Done s'" and w: "w_files (snd (main E A w)) = files s'"
    using main_completed [OF d] by metis
  show "\<forall>f\<in>set (input_filenames A). \<exists>its out.
         source E f = Inr its
         \<and> w_files (snd (main E A w)) (trimfilename_of f) = Some out
         \<and> (\<forall>x\<in>set out. \<exists>r\<in>set (reads_of its). kept_bases x r)"
  proof
    fix f assume "f \<in> set (input_filenames A)"
    with run_passes_after [of A E h w s'] a r
    have "after_pass2 E (mkdtemp E (tempdir A)) f (files s')" by simp
    then obtain its out sel where
      o: "source E f = Inr its" "files s' (trimfilename_of f) = Some out"
         "list_all2 cut_of out sel" "mset sel \<subseteq># mset (reads_of its)"
      unfolding after_pass2_def by blast
    from o(4) have "set sel \<subseteq> set (reads_of its)" by (metis set_mset_mono set_mset_mset)
    with list_all2_cut_kept [OF o(3)]
    have "\<forall>x\<in>set out. \<exists>r\<in>set (reads_of its). kept_bases x r" by blast
    with o(1,2) w show "\<exists>its out.
         source E f = Inr its
         \<and> w_files (snd (main E A w)) (trimfilename_of f) = Some out
         \<and> (\<forall>x\<in>set out. \<exists>r\<in>set (reads_of its). kept_bases x r)"
      by auto
  qed
qed

text \<open>An instance: the run over \<^verbatim>\<open>r.fa\<close>.\<close>

theorem output_keeps_input_bases_witness:
  "distinct (map basename (input_filenames (example_args 2 1 2 False [''r.fa''])))
   \<and> fst (main (example_env pair_source) (example_args 2 1 2 False [''r.fa'']) empty_world)
       = Success
   \<and> (\<exists>its out.
         source (example_env pair_source) ''r.fa'' = Inr its
         \<and> w_files (snd (main (example_env pair_source) (example_args 2 1 2 False [''r.fa''])
              empty_world)) (trimfilename_of ''r.fa'') = Some out
         \<and> (\<forall>x\<in>set out. \<exists>r\<in>set (reads_of its). kept_bases x r))"
proof -
  let ?E = "example_env pair_source" and ?A = "example_args 2 1 2 False [''r.fa'']"
  have d: "distinct (map basename (input_filenames ?A))" by (simp add: example_args_def)
  have ok: "fst (main ?E ?A empty_world) = Success" by code_simp
  have f: "''r.fa'' \<in> set (input_filenames ?A)" by (simp add: example_args_def)
  from output_keeps_input_bases [of undefined undefined undefined undefined ?E ?A undefined
      undefined undefined empty_world] d ok f
  have "\<exists>its out.
         source ?E ''r.fa'' = Inr its
         \<and> w_files (snd (main ?E ?A empty_world)) (trimfilename_of ''r.fa'') = Some out
         \<and> (\<forall>x\<in>set out. \<exists>r\<in>set (reads_of its). kept_bases x r)"
    by blast
  with d ok show ?thesis by blast
qed




subsection \<open>The estimate of the false-positive rate plays no part in the passes\<close>

lemma estimate_write: "write_record (with_estimate g E) = write_record E"
  by (intro ext) (simp add: write_record_def with_estimate_def)

lemma estimate_write_pair: "write_record_pair (with_estimate g E) = write_record_pair E"
  by (intro ext) (simp add: write_record_pair_def estimate_write)

lemma estimate_ops:
  "get_median_count (table (with_estimate g E)) = get_median_count (table E)"
  "consume (table (with_estimate g E)) = consume (table E)"
  "trim_on_abundance (table (with_estimate g E)) = trim_on_abundance (table E)"
  "new_counting_hash (table (with_estimate g E)) = new_counting_hash (table E)"
  "source (with_estimate g E) = source E"
  "mkdtemp (with_estimate g E) = mkdtemp E"
  by (simp_all add: with_estimate_def)

lemma estimate_item: "pass1_item (with_estimate g E) A P T it s = pass1_item E A P T it s"
  by (cases it)
     (simp_all add: pass1_single_def pass1_pair_def estimate_ops estimate_write
        estimate_write_pair Let_def cong: sum.case_cong if_cong)

lemma estimate_read: "pass2_read (with_estimate g E) A T rd s = pass2_read E A T rd s"
  by (simp add: pass2_read_def estimate_ops estimate_write Let_def
        cong: sum.case_cong if_cong)

lemma estimate_pass1_loop:
  "pass1_loop (with_estimate g E) A P T its s = pass1_loop E A P T its s"
proof (induction its arbitrary: s)
  case Nil
  show ?case by simp
next
  case (Cons it its)
  show ?case
    by (cases "pass1_item E A P T it (s\<lparr>n_bound := True\<rparr>)")
       (simp_all add: estimate_item Cons.IH)
qed

lemma estimate_pass2_loop:
  "pass2_loop (with_estimate g E) A T rds s = pass2_loop E A T rds s"
proof (induction rds arbitrary: s)
  case Nil
  show ?case by simp
next
  case (Cons rd rds)
  show ?case
    by (cases "pass2_read E A T rd (s\<lparr>n_bound := True\<rparr>)")
       (simp_all add: estimate_read Cons.IH)
qed

lemma estimate_pass1_file:
  "pass1_file (with_estimate g E) A tmp f s = pass1_file E A tmp f s"
  by (simp add: pass1_file_def estimate_pass1_loop estimate_ops Let_def cong: sum.case_cong)

lemma estimate_first_pass:
  "first_pass (with_estimate g E) A tmp fs s = first_pass E A tmp fs s"
proof (induction fs arbitrary: s)
  case Nil
  show ?case by simp
next
  case (Cons f fs)
  show ?case
    by (cases "pass1_file E A tmp f s") (simp_all add: estimate_pass1_file Cons.IH)
qed

lemma estimate_pass2_file:
  "pass2_file (with_estimate g E) A entry s = pass2_file E A entry s"
  by (cases entry) (simp add: estimate_pass2_loop Let_def cong: option.case_cong)

lemma estimate_second_pass:
  "second_pass (with_estimate g E) A es s = second_pass E A es s"
proof (induction es arbitrary: s)
  case Nil
  show ?case by simp
next
  case (Cons e es)
  show ?case
    by (cases "pass2_file E A e s") (simp_all add: estimate_pass2_file Cons.IH)
qed

lemma estimate_run_passes: "run_passes (with_estimate g E) A h w = run_passes E A h w"
  by (simp add: run_passes_def estimate_first_pass estimate_second_pass estimate_ops Let_def)

lemma finish_files:
  "w_files (snd (finish E s)) = files s \<and> w_dirs (snd (finish E s)) = dirs s"
  by (simp add: finish_def world_of_def Let_def)

lemma estimate_main_files:
  "w_files (snd (main (with_estimate g E) A w)) = w_files (snd (main E A w))
   \<and> w_dirs (snd (main (with_estimate g E) A w)) = w_dirs (snd (main E A w))"
  by (simp add: main_def estimate_run_passes estimate_ops finish_files world_of_def
        split: sum.splits res.splits)

text \<open>
  C7. When both passes have run and the temporary directory is removed (\<open>run_passes\<close> is
  done, in state \<open>s\<close>) and the summary can be printed (\<^verbatim>\<open>read_bp\<close> is not 0), the run
  ends with exit status 1 exactly when the estimated false-positive rate of the final
  table exceeds \<^verbatim>\<open>MAX_FALSE_POSITIVE_RATE\<close>, and then the last line on standard error
  is the warning not to use the results; otherwise it succeeds, with the estimate as the
  only line added. In both cases the files and directories at the end are those of \<open>s\<close>:
  the check comes after all output. Whatever the estimate \<open>g\<close> reports, the passes are the
  same and leave the same files.
\<close>

theorem false_positive_gate:
  assumes "distinct (input_filenames A)"
      and "new_counting_hash (table E) (ksize A) (min_hashsize A) (n_hashes A) = Inr h"
      and "run_passes E A h w = Done s"
      and "read_bp s \<noteq> 0"
  shows "fst (main E A w)
           = (if MAX_FALSE_POSITIVE_RATE < calc_expected_collisions (table E) (ht s)
              then SysExit 1 else Success)
       \<and> (if MAX_FALSE_POSITIVE_RATE < calc_expected_collisions (table E) (ht s)
          then last (w_stderr (snd (main E A w))) = Line ''** Do not use these results!!''
          else w_stderr (snd (main E A w))
                 = stderr s @ [FpRate (calc_expected_collisions (table E) (ht s))])
       \<and> w_files (snd (main E A w)) = files s
       \<and> w_dirs (snd (main E A w)) = dirs s
       \<and> run_passes (with_estimate g E) A h w = Done s
       \<and> w_files (snd (main (with_estimate g E) A w)) = files s
       \<and> w_dirs (snd (main (with_estimate g E) A w)) = dirs s"
proof -
  from assms(1) have c: "card (set (input_filenames A)) = length (input_filenames A)"
    by (rule distinct_card)
  with assms(2,3) have m: "main E A w = finish E s" by (simp add: main_def)
  have 1: "fst (finish E s)
           = (if MAX_FALSE_POSITIVE_RATE < calc_expected_collisions (table E) (ht s)
              then SysExit 1 else Success)"
    using assms(4) by (simp add: finish_def Let_def)
  have 2: "if MAX_FALSE_POSITIVE_RATE < calc_expected_collisions (table E) (ht s)
          then last (w_stderr (snd (finish E s))) = Line ''** Do not use these results!!''
          else w_stderr (snd (finish E s))
                 = stderr s @ [FpRate (calc_expected_collisions (table E) (ht s))]"
    using assms(4) by (simp add: finish_def Let_def world_of_def)
  have 3: "w_files (snd (main E A w)) = files s \<and> w_dirs (snd (main E A w)) = dirs s"
    unfolding m by (rule finish_files)
  have 4: "run_passes (with_estimate g E) A h w = Done s"
    using assms(3) by (simp add: estimate_run_passes)
  from 1 2 3 4 estimate_main_files [of g E A w] show ?thesis
    unfolding m by simp
qed

text \<open>An instance: a table that reports 0.9. The run exits with status 1 after it has
  written all three records.\<close>

theorem false_positive_gate_witness:
  "distinct (input_filenames (example_args 2 1 2 False [''r.fa'']))
   \<and> new_counting_hash (table undersized_env) (ksize (example_args 2 1 2 False [''r.fa'']))
        (min_hashsize (example_args 2 1 2 False [''r.fa'']))
        (n_hashes (example_args 2 1 2 False [''r.fa'']))
       = Inr \<lparr>tk = 2, counts = (\<lambda>key. 0)\<rparr>
   \<and> is_Done (run_passes undersized_env (example_args 2 1 2 False [''r.fa''])
        \<lparr>tk = 2, counts = (\<lambda>key. 0)\<rparr> empty_world)
   \<and> read_bp (state_of (run_passes undersized_env (example_args 2 1 2 False [''r.fa''])
        \<lparr>tk = 2, counts = (\<lambda>key. 0)\<rparr> empty_world)) = 12
   \<and> fst (main undersized_env (example_args 2 1 2 False [''r.fa'']) empty_world) = SysExit 1
   \<and> last (w_stderr (snd (main undersized_env (example_args 2 1 2 False [''r.fa''])
        empty_world))) = Line ''** Do not use these results!!''
   \<and> w_files (snd (main undersized_env (example_args 2 1 2 False [''r.fa'']) empty_world))
        ''r.fa.abundtrim''
       = Some [fasta ''b/1'' ''ACCC'', fasta ''b/2'' ''CCCC'', fasta ''a'' ''CCCC'']"
proof -
  let ?A = "example_args 2 1 2 False [''r.fa'']"
  let ?h = "\<lparr>tk = 2, counts = (\<lambda>key. 0)\<rparr> :: exact_table"
  let ?s = "state_of (run_passes undersized_env ?A ?h empty_world)"
  have d: "distinct (input_filenames ?A)" by (simp add: example_args_def)
  have n: "new_counting_hash (table undersized_env) (ksize ?A) (min_hashsize ?A) (n_hashes ?A)
       = Inr ?h"
    by (simp add: undersized_env_def exact_hash_def exact_new_def example_args_def)
  have D: "is_Done (run_passes undersized_env ?A ?h empty_world)" by code_simp
  then have r: "run_passes undersized_env ?A ?h empty_world = Done ?s"
    by (cases "run_passes undersized_env ?A ?h empty_world") simp_all
  have b: "read_bp ?s = 12" by code_simp
  then have b0: "read_bp ?s \<noteq> 0" by simp
  have fp: "MAX_FALSE_POSITIVE_RATE < calc_expected_collisions (table undersized_env) (ht ?s)"
    by (simp add: undersized_env_def MAX_FALSE_POSITIVE_RATE_def)
  have out: "files ?s ''r.fa.abundtrim''
       = Some [fasta ''b/1'' ''ACCC'', fasta ''b/2'' ''CCCC'', fasta ''a'' ''CCCC'']"
    by code_simp
  from false_positive_gate [OF d n r b0, of undefined] fp out
  have "fst (main undersized_env ?A empty_world) = SysExit 1
   \<and> last (w_stderr (snd (main undersized_env ?A empty_world)))
       = Line ''** Do not use these results!!''
   \<and> w_files (snd (main undersized_env ?A empty_world)) ''r.fa.abundtrim''
       = Some [fasta ''b/1'' ''ACCC'', fasta ''b/2'' ''CCCC'', fasta ''a'' ''CCCC'']"
    by simp
  with d n D b show ?thesis by blast
qed

subsection \<open>Exceptions are not caught\<close>




lemma first_file_start_eq:
  "first_file_start E A h w f =
     (open_w (trimfilename_of f) (open_w (pass2filename_of (mkdtemp E (tempdir A)) f)
        ((init_state h (mkdtemp E (tempdir A)) w)
           \<lparr>pass2list := pass2list (init_state h (mkdtemp E (tempdir A)) w)
              @ [(f, pass2filename_of (mkdtemp E (tempdir A)) f, trimfilename_of f)]\<rparr>)))
     \<lparr>save_pass2 := 0\<rparr>"
  by (simp add: first_file_start_def init_state_def Let_def)




subsection \<open>Configuration errors\<close>

text \<open>
  C8. With the same file name given twice, or with a k-mer size \<open>\<le> 0\<close> and a table
  whose constructor is the one of the specification, \<^verbatim>\<open>main\<close> ends with exit status 1
  or with an uncaught \<open>ConfigError\<close>; the files and directories are as before the run
  (no temporary directory, no output, no deferred store); and the result is the same in
  every environment with that constructor, whatever the input files hold and whatever the
  other table operations do: no record is read and nothing is consumed.
\<close>

theorem config_error_before_processing:
  assumes "\<not> distinct (input_filenames A) \<or> ksize A \<le> 0"
      and "new_counting_hash (table E) = exact_new"
  shows "(fst (main E A w) = SysExit 1 \<or> fst (main E A w) = Uncaught ConfigError)
       \<and> w_files (snd (main E A w)) = w_files w
       \<and> w_dirs (snd (main E A w)) = w_dirs w
       \<and> (new_counting_hash (table E') = exact_new \<longrightarrow> main E' A w = main E A w)"
proof (cases "distinct (input_filenames A)")
  case False
  then have "card (set (input_filenames A)) \<noteq> length (input_filenames A)"
    using card_distinct by blast
  then show ?thesis by (simp add: main_def)
next
  case True
  with assms(1) have k: "ksize A \<le> 0" by simp
  from True have "card (set (input_filenames A)) = length (input_filenames A)"
    by (rule distinct_card)
  with k assms(2) show ?thesis by (auto simp: main_def exact_new_def)
qed

text \<open>An instance: K = 0.\<close>

theorem config_error_before_processing_witness:
  "ksize (example_args 0 1 2 False [''r.fa'']) \<le> 0
   \<and> new_counting_hash (table (example_env pair_source)) = exact_new
   \<and> fst (main (example_env pair_source) (example_args 0 1 2 False [''r.fa'']) empty_world)
       = Uncaught ConfigError
   \<and> w_files (snd (main (example_env pair_source) (example_args 0 1 2 False [''r.fa''])
        empty_world)) = w_files empty_world
   \<and> w_dirs (snd (main (example_env pair_source) (example_args 0 1 2 False [''r.fa''])
        empty_world)) = w_dirs empty_world"
proof -
  let ?E = "example_env pair_source" and ?A = "example_args 0 1 2 False [''r.fa'']"
  have k: "ksize ?A \<le> 0" by (simp add: example_args_def)
  then have a: "\<not> distinct (input_filenames ?A) \<or> ksize ?A \<le> 0" by simp
  have n: "new_counting_hash (table ?E) = exact_new"
    by (simp add: example_env_def exact_hash_def)
  have x: "fst (main ?E ?A empty_world) \<noteq> SysExit 1" by code_simp
  from config_error_before_processing [OF a n, of empty_world ?E] x
  have "fst (main ?E ?A empty_world) = Uncaught ConfigError
      \<and> w_files (snd (main ?E ?A empty_world)) = w_files empty_world
      \<and> w_dirs (snd (main ?E ?A empty_world)) = w_dirs empty_world"
    by blast
  with k n show ?thesis by blast
qed

subsection \<open>More on the run\<close>

text \<open>An instance of the step of a single record: \<^verbatim>\<open>ACCC\<close> has median 3, at the limit
  or above, and \<open>trim_at = 1 < K\<close>; alone, it is dropped and no file changes.\<close>

theorem pass1_single_outcome_witness:
  "get_median_count (table (example_env no_source)) (ht example_state)
      (replace_N_A (sequence (fasta ''b/1'' ''ACCC''))) = Inr 3
   \<and> ''./tmp0khmer/r.fa.pass2'' \<noteq> ''r.fa.abundtrim''
   \<and> trim_on_abundance (table (example_env no_source)) (ht example_state)
        (replace_N_A (sequence (fasta ''b/1'' ''ACCC'')))
        (abund_cutoff (example_args 2 1 2 False [''r.fa''])) = Inr 1
   \<and> is_Done (pass1_single (example_env no_source) (example_args 2 1 2 False [''r.fa''])
        ''./tmp0khmer/r.fa.pass2'' ''r.fa.abundtrim'' (fasta ''b/1'' ''ACCC'') example_state)
   \<and> files (state_of (pass1_single (example_env no_source)
        (example_args 2 1 2 False [''r.fa'']) ''./tmp0khmer/r.fa.pass2'' ''r.fa.abundtrim''
        (fasta ''b/1'' ''ACCC'') example_state)) = files example_state"
proof -
  let ?E = "example_env no_source" and ?A = "example_args 2 1 2 False [''r.fa'']"
  let ?r = "fasta ''b/1'' ''ACCC''"
  have m: "get_median_count (table ?E) (ht example_state) (replace_N_A (sequence ?r)) = Inr 3"
    by code_simp
  have PT: "''./tmp0khmer/r.fa.pass2'' \<noteq> ''r.fa.abundtrim''" by simp
  have t: "trim_on_abundance (table ?E) (ht example_state) (replace_N_A (sequence ?r))
        (abund_cutoff ?A) = Inr 1"
    by code_simp
  have l: "\<not> (3::int) < normalize_to ?A" "(1::int) < ksize ?A"
    by (simp_all add: example_args_def)
  from pass1_single_outcome [OF m PT, of ?A] l t
  have "is_Done (pass1_single ?E ?A ''./tmp0khmer/r.fa.pass2'' ''r.fa.abundtrim'' ?r
          example_state)
      \<and> files (state_of (pass1_single ?E ?A ''./tmp0khmer/r.fa.pass2'' ''r.fa.abundtrim''
          ?r example_state)) = files example_state"
    by blast
  with m PT t show ?thesis by blast
qed

text \<open>
  When the first input file yields no record, the summary line after its loop
  (line 231) reads the loop variable \<^verbatim>\<open>n\<close>, which is not bound: \<^verbatim>\<open>main\<close> ends with a
  \<open>NameError\<close>, before the second pass, and leaves the empty deferred store, the empty
  output and the temporary directory.
\<close>

theorem empty_first_file_raises:
  assumes fns: "input_filenames A = f # fs" and dist: "distinct (f # fs)"
      and new: "new_counting_hash (table E) (ksize A) (min_hashsize A) (n_hashes A) = Inr h"
      and src: "source E f = Inr []"
  shows "fst (main E A w) = Uncaught NameError
       \<and> w_files (snd (main E A w)) (pass2filename_of (mkdtemp E (tempdir A)) f) = Some []
       \<and> w_files (snd (main E A w)) (trimfilename_of f) = Some []
       \<and> mkdtemp E (tempdir A) \<in> w_dirs (snd (main E A w))"
proof -
  let ?tmp = "mkdtemp E (tempdir A)"
  let ?s0 = "first_file_start E A h w f"
  have fl: "pass1_file E A ?tmp f (init_state h ?tmp w) = Raised NameError ?s0"
    using src
    by (simp add: pass1_file_def Let_def first_file_start_eq)
       (simp add: open_w_def init_state_def)
  have run: "run_passes E A h w = Raised NameError ?s0"
    by (simp add: run_passes_def Let_def fns fl)
  have c: "card (set (input_filenames A)) = length (input_filenames A)"
    using dist fns by (simp add: distinct_card)
  have m: "main E A w = (Uncaught NameError, world_of ?s0)"
    using c new run by (simp add: main_def)
  show ?thesis
    unfolding m
    by (simp add: world_of_def first_file_start_def Let_def open_w_def init_state_def
          pass2_ne_trim)
qed

text \<open>An instance: \<^verbatim>\<open>r.fa\<close> without records.\<close>

theorem empty_first_file_raises_witness:
  "input_filenames (example_args 2 1 2 False [''r.fa'']) = ''r.fa'' # []
   \<and> distinct (''r.fa'' # [])
   \<and> source (example_env empty_source) ''r.fa'' = Inr []
   \<and> fst (main (example_env empty_source) (example_args 2 1 2 False [''r.fa'']) empty_world)
       = Uncaught NameError"
proof -
  let ?E = "example_env empty_source" and ?A = "example_args 2 1 2 False [''r.fa'']"
  let ?h = "\<lparr>tk = 2, counts = (\<lambda>key. 0)\<rparr> :: exact_table"
  have fns: "input_filenames ?A = ''r.fa'' # []" by (simp add: example_args_def)
  have dist: "distinct (''r.fa'' # [])" by simp
  have new: "new_counting_hash (table ?E) (ksize ?A) (min_hashsize ?A) (n_hashes ?A) = Inr ?h"
    by (simp add: example_env_def exact_hash_def exact_new_def example_args_def)
  have src: "source ?E ''r.fa'' = Inr []"
    by (simp add: example_env_def empty_source_def)
  from empty_first_file_raises [OF fns dist new src, of empty_world]
  have "fst (main ?E ?A empty_world) = Uncaught NameError" by blast
  with fns dist src show ?thesis by blast
qed

text \<open>
  Two input files with different names and the same base name are given the same
  output and the same deferred store, since both names are built from
  \<^verbatim>\<open>os.path.basename(filename)\<close>. The first pass over the second file empties what the
  first file left; the second pass removes the store after the first entry and raises
  \<open>IOError\<close> at the second. The output holds no record of the first file.
\<close>

theorem same_base_name_shares_files:
  "distinct [''a/r.fa'', ''b/r.fa'']
   \<and> trimfilename_of ''a/r.fa'' = trimfilename_of ''b/r.fa''
   \<and> pass2filename_of ''./tmp0khmer'' ''a/r.fa'' = pass2filename_of ''./tmp0khmer'' ''b/r.fa''
   \<and> fst (main (example_env twin_source) (example_args 2 1 2 False [''a/r.fa'', ''b/r.fa''])
        empty_world) = Uncaught IOError
   \<and> w_files (snd (main (example_env twin_source)
        (example_args 2 1 2 False [''a/r.fa'', ''b/r.fa'']) empty_world)) ''r.fa.abundtrim''
       = Some [fasta ''y'' ''CCCC'']"
  by code_simp

end
